theory Spec2Isabelle
  imports Main "HOL-Library.Char_ord" "HOL-Library.Sublist"
begin

text \<open>
  A model of the command guard and approval core of LocalTopSH: the classifier of shell
  commands and the store of commands awaiting approval (\<open>src/approvals/index.ts\<close>), the
  file tools with their checks of sensitive files, of the workspace and of symbolic links
  (\<open>src/tools/files.ts\<close>), and the bot's outbound rate limiter and active-user set
  (\<open>bot/src/rate-limiter.ts\<close>). Each function of the source is a function here; module
  variables are a state that is passed in and returned; what the host (file system, child
  processes, the wrapped send function) answers is a parameter; exceptions are values.
\<close>

section \<open>JavaScript strings and regular expressions\<close>

text \<open>
  A JavaScript string is modelled as a \<^typ>\<open>string\<close>, one \<^typ>\<open>char\<close> per UTF-16 code unit;
  the model therefore covers the strings whose code units lie in the Latin-1 range
  \<open>0..255\<close>, which contains every command, path and pattern the repository's tables and
  tests mention.
\<close>

definition isWordChar :: "char \<Rightarrow> bool" where
  \<comment> \<open>the class \<open>\w\<close>, i.e. \<open>[A-Za-z0-9_]\<close>\<close>
  "isWordChar c =
     ((CHR ''a'' \<le> c \<and> c \<le> CHR ''z'') \<or> (CHR ''A'' \<le> c \<and> c \<le> CHR ''Z'')
      \<or> (CHR ''0'' \<le> c \<and> c \<le> CHR ''9'') \<or> c = CHR ''_'')"

definition isSpaceChar :: "char \<Rightarrow> bool" where
  \<comment> \<open>the class \<open>\s\<close> restricted to Latin-1: TAB, LF, VT, FF, CR, SP, NBSP\<close>
  "isSpaceChar c =
     (c = CHR '' '' \<or> c = CHR 0x09 \<or> c = CHR 0x0A \<or> c = CHR 0x0B \<or> c = CHR 0x0C
      \<or> c = CHR 0x0D \<or> c = CHR 0xA0)"

definition isLineTerminator :: "char \<Rightarrow> bool" where
  \<comment> \<open>the characters \<open>.\<close> does not match (LF and CR; U+2028 and U+2029 are outside Latin-1)\<close>
  "isLineTerminator c = (c = CHR 0x0A \<or> c = CHR 0x0D)"

definition asciiUpper :: "char \<Rightarrow> char" where
  "asciiUpper c =
     (if CHR ''a'' \<le> c \<and> c \<le> CHR ''z'' then char_of (of_char c - (32::nat)) else c)"

definition asciiLower :: "char \<Rightarrow> char" where
  "asciiLower c =
     (if CHR ''A'' \<le> c \<and> c \<le> CHR ''Z'' then char_of (of_char c + (32::nat)) else c)"

definition lowerChar :: "char \<Rightarrow> char" where
  \<comment> \<open>\<open>String.prototype.toLowerCase\<close> on one Latin-1 code unit: \<open>A-Z\<close> and \<open>U+00C0..U+00DE\<close>
      (without the multiplication sign \<open>U+00D7\<close>) move up by 32\<close>
  "lowerChar c =
     (if (CHR ''A'' \<le> c \<and> c \<le> CHR ''Z'') \<or> (CHR 0xC0 \<le> c \<and> c \<le> CHR 0xDE \<and> c \<noteq> CHR 0xD7)
      then char_of (of_char c + (32::nat)) else c)"

definition toLowerCase :: "string \<Rightarrow> string" where
  "toLowerCase s = map lowerChar s"

fun startsWith :: "string \<Rightarrow> string \<Rightarrow> bool" where
  "startsWith s [] = True"
| "startsWith [] (p # ps) = False"
| "startsWith (c # cs) (p # ps) = (c = p \<and> startsWith cs ps)"

fun includesStr :: "string \<Rightarrow> string \<Rightarrow> bool" where
  "includesStr [] p = startsWith [] p"
| "includesStr (c # cs) p = (startsWith (c # cs) p \<or> includesStr cs p)"

definition digitChar :: "nat \<Rightarrow> char" where
  "digitChar d = char_of (48 + d)"

function numToString :: "nat \<Rightarrow> string" where
  \<comment> \<open>the decimal rendering of a non-negative integer in a template literal\<close>
  "numToString n = (if n < 10 then [digitChar n] else numToString (n div 10) @ [digitChar (n mod 10)])"
  by pat_completeness auto
termination
  by (relation "measure id") auto

subsection \<open>Regular expressions\<close>

datatype cclass = Single char | Range char char | Space | Word

datatype regex =
    Eps
  | Chr char
  | Any
  | Cls "cclass list"
  | Seq regex regex
  | Alt regex regex
  | Star regex
  | Plus regex
  | Opt regex
  | Bnd
  | Eol

record RegExp =
  source :: regex
  ignoreCase :: bool

fun inClass :: "cclass \<Rightarrow> char \<Rightarrow> bool" where
  "inClass (Single d) c = (c = d)"
| "inClass (Range a b) c = (a \<le> c \<and> c \<le> b)"
| "inClass Space c = isSpaceChar c"
| "inClass Word c = isWordChar c"

definition chrMatch :: "bool \<Rightarrow> char \<Rightarrow> char \<Rightarrow> bool" where
  \<comment> \<open>with the \<open>i\<close> flag both sides are canonicalised (upper-cased) before they are compared\<close>
  "chrMatch ic d c = (if ic then asciiUpper c = asciiUpper d else c = d)"

definition clsMatch :: "bool \<Rightarrow> cclass list \<Rightarrow> char \<Rightarrow> bool" where
  "clsMatch ic ks c =
     (if ic then list_ex (\<lambda>k. inClass k c \<or> inClass k (asciiUpper c) \<or> inClass k (asciiLower c)) ks
      else list_ex (\<lambda>k. inClass k c) ks)"

text \<open>
  A matcher state is the input still to be read together with one bit of the input
  already read: whether the previous character was a word character (what \<open>\b\<close> needs).
  \<open>rmatch ic r st\<close> lists the states in which a match of \<open>r\<close> begun in \<open>st\<close> can end.
  \<open>test\<close> only asks whether some match exists, so the order in which a backtracking
  matcher would try them plays no role.
\<close>

type_synonym mstate = "bool \<times> string"

fun step1 :: "(char \<Rightarrow> bool) \<Rightarrow> mstate \<Rightarrow> mstate list" where
  "step1 P (pw, []) = []"
| "step1 P (pw, c # cs) = (if P c then [(isWordChar c, cs)] else [])"

fun star_iter :: "nat \<Rightarrow> (mstate \<Rightarrow> mstate list) \<Rightarrow> mstate \<Rightarrow> mstate list" where
  \<comment> \<open>zero or more rounds of \<open>f\<close>; as in ECMAScript a round that consumes nothing is not
      repeated, so the length of the remaining input bounds the number of rounds\<close>
  "star_iter 0 f st = [st]"
| "star_iter (Suc n) f st =
     st # concat (map (star_iter n f) (filter (\<lambda>st'. length (snd st') < length (snd st)) (f st)))"

fun nextWord :: "string \<Rightarrow> bool" where
  "nextWord [] = False"
| "nextWord (c # cs) = isWordChar c"

primrec rmatch :: "bool \<Rightarrow> regex \<Rightarrow> mstate \<Rightarrow> mstate list" where
  "rmatch ic Eps = (\<lambda>st. [st])"
| "rmatch ic (Chr d) = step1 (chrMatch ic d)"
| "rmatch ic Any = step1 (\<lambda>c. \<not> isLineTerminator c)"
| "rmatch ic (Cls ks) = step1 (clsMatch ic ks)"
| "rmatch ic (Seq r1 r2) = (\<lambda>st. concat (map (rmatch ic r2) (rmatch ic r1 st)))"
| "rmatch ic (Alt r1 r2) = (\<lambda>st. rmatch ic r1 st @ rmatch ic r2 st)"
| "rmatch ic (Star r) = (\<lambda>st. star_iter (length (snd st)) (rmatch ic r) st)"
| "rmatch ic (Plus r) =
     (\<lambda>st. concat (map (\<lambda>st'. star_iter (length (snd st')) (rmatch ic r) st') (rmatch ic r st)))"
| "rmatch ic (Opt r) = (\<lambda>st. st # rmatch ic r st)"
| "rmatch ic Bnd = (\<lambda>st. if fst st \<noteq> nextWord (snd st) then [st] else [])"
| "rmatch ic Eol = (\<lambda>st. if snd st = [] then [st] else [])"

fun searchFrom :: "bool \<Rightarrow> regex \<Rightarrow> bool \<Rightarrow> string \<Rightarrow> bool" where
  \<comment> \<open>a match may start at any index of the input, the end included\<close>
  "searchFrom ic r pw [] = (rmatch ic r (pw, []) \<noteq> [])"
| "searchFrom ic r pw (c # cs) =
     (rmatch ic r (pw, c # cs) \<noteq> [] \<or> searchFrom ic r (isWordChar c) cs)"

definition RegExp_test :: "RegExp \<Rightarrow> string \<Rightarrow> bool" where
  \<comment> \<open>\<open>RegExp.prototype.test\<close> of a regular expression without the \<open>g\<close> and \<open>y\<close> flags\<close>
  "RegExp_test re s = searchFrom (ignoreCase re) (source re) False s"

fun lit :: "string \<Rightarrow> regex" where
  "lit [] = Eps"
| "lit [c] = Chr c"
| "lit (c # cs) = Seq (Chr c) (lit cs)"

fun seqs :: "regex list \<Rightarrow> regex" where
  "seqs [] = Eps"
| "seqs [r] = r"
| "seqs (r # rs) = Seq r (seqs rs)"

fun alts :: "regex list \<Rightarrow> regex" where
  "alts [] = Cls []"
| "alts [r] = r"
| "alts (r # rs) = Alt r (alts rs)"

definition ws :: regex where
  "ws = Cls [Space]"

definition wd :: regex where
  "wd = Cls [Word]"

section \<open>Exec approvals (src/approvals/index.ts)\<close>

record pattern_entry =
  pattern :: RegExp
  reason :: string

definition rule :: "regex \<Rightarrow> bool \<Rightarrow> string \<Rightarrow> pattern_entry" where
  "rule r ic why = \<lparr>pattern = \<lparr>source = r, ignoreCase = ic\<rparr>, reason = why\<rparr>"

text \<open>
  The table \<open>DANGEROUS_PATTERNS\<close>, entry by entry in the order of the source. An entry
  \<open>{ pattern: /re/flags, reason: '...' }\<close> is written \<open>rule re i-flag reason\<close>; \<open>\b\<close> is
  \<^const>\<open>Bnd\<close>, \<open>$\<close> is \<^const>\<open>Eol\<close>, \<open>\s\<close> is \<^const>\<open>ws\<close>, \<open>\w\<close> is \<^const>\<open>wd\<close>, \<open>.\<close> is
  \<^const>\<open>Any\<close>, and \<open>x{2}\<close> is written out as \<open>x x\<close>.
\<close>

definition DANGEROUS_PATTERNS :: "pattern_entry list" where
  \<open>DANGEROUS_PATTERNS = [
    \<comment> \<open>/\brm\s+(-[rf]+\s+)*[\/~]/\<close>
    rule (seqs [Bnd, lit ''rm'', Plus ws, Star (seqs [Chr (CHR ''-''),
          Plus (Cls [Single CHR ''r'', Single CHR ''f'']), Plus ws]), Cls [Single CHR ''/'',
          Single CHR ''~'']])
      False ''Recursive delete from root/home'',
    \<comment> \<open>/\brm\s+-[rf]*\s*\*/\<close>
    rule (seqs [Bnd, lit ''rm'', Plus ws, Chr (CHR ''-''), Star (Cls [Single CHR ''r'',
          Single CHR ''f'']), Star ws, Chr (CHR ''*'')])
      False ''Wildcard delete'',
    \<comment> \<open>/\brm\s+-rf\b/\<close>
    rule (seqs [Bnd, lit ''rm'', Plus ws, lit ''-rf'', Bnd])
      False ''Force recursive delete'',
    \<comment> \<open>/\brmdir\s+--ignore-fail-on-non-empty/\<close>
    rule (seqs [Bnd, lit ''rmdir'', Plus ws, lit ''--ignore-fail-on-non-empty''])
      False ''Force directory removal'',
    \<comment> \<open>/\bsudo\b/\<close>
    rule (seqs [Bnd, lit ''sudo'', Bnd])
      False ''Root privileges'',
    \<comment> \<open>/\bsu\s+-?\s*$/\<close>
    rule (seqs [Bnd, lit ''su'', Plus ws, Opt (Chr (CHR ''-'')), Star ws, Eol])
      False ''Switch to root'',
    \<comment> \<open>/\bchown\s+-R\s+root/\<close>
    rule (seqs [Bnd, lit ''chown'', Plus ws, lit ''-R'', Plus ws, lit ''root''])
      False ''Change ownership to root'',
    \<comment> \<open>/\bchmod\s+(-R\s+)?[0-7]*7[0-7]{2}\b/\<close>
    rule (seqs [Bnd, lit ''chmod'', Plus ws, Opt (seqs [lit ''-R'', Plus ws]),
          Star (Cls [Range CHR ''0'' CHR ''7'']), Chr (CHR ''7''),
          Cls [Range CHR ''0'' CHR ''7''], Cls [Range CHR ''0'' CHR ''7''], Bnd])
      False ''World-writable permissions'',
    \<comment> \<open>/\bchmod\s+(-R\s+)?777\b/\<close>
    rule (seqs [Bnd, lit ''chmod'', Plus ws, Opt (seqs [lit ''-R'', Plus ws]), lit ''777'',
          Bnd])
      False ''Full permissions to everyone'',
    \<comment> \<open>/\bchmod\s+\+s\b/\<close>
    rule (seqs [Bnd, lit ''chmod'', Plus ws, lit ''+s'', Bnd])
      False ''Set SUID/SGID bit'',
    \<comment> \<open>/\bmkfs\b/\<close>
    rule (seqs [Bnd, lit ''mkfs'', Bnd])
      False ''Format filesystem'',
    \<comment> \<open>/\bdd\s+.*of=\/dev\//\<close>
    rule (seqs [Bnd, lit ''dd'', Plus ws, Star Any, lit ''of=/dev/''])
      False ''Direct disk write'',
    \<comment> \<open>/>\s*\/dev\/[sh]d[a-z]/\<close>
    rule (seqs [Chr (CHR ''>''), Star ws, lit ''/dev/'', Cls [Single CHR ''s'',
          Single CHR ''h''], Chr (CHR ''d''), Cls [Range CHR ''a'' CHR ''z'']])
      False ''Redirect to disk device'',
    \<comment> \<open>/\bfdisk\b/\<close>
    rule (seqs [Bnd, lit ''fdisk'', Bnd])
      False ''Partition manipulation'',
    \<comment> \<open>/\bparted\b/\<close>
    rule (seqs [Bnd, lit ''parted'', Bnd])
      False ''Partition manipulation'',
    \<comment> \<open>/\biptables\s+(-F|--flush)/\<close>
    rule (seqs [Bnd, lit ''iptables'', Plus ws, alts [lit ''-F'', lit ''--flush'']])
      False ''Flush firewall rules'',
    \<comment> \<open>/\bufw\s+disable/\<close>
    rule (seqs [Bnd, lit ''ufw'', Plus ws, lit ''disable''])
      False ''Disable firewall'',
    \<comment> \<open>/\bsystemctl\s+(stop|disable)\s+(ssh|firewall|ufw)/\<close>
    rule (seqs [Bnd, lit ''systemctl'', Plus ws, alts [lit ''stop'', lit ''disable''],
          Plus ws, alts [lit ''ssh'', lit ''firewall'', lit ''ufw'']])
      False ''Stop security service'',
    \<comment> \<open>/\bapt(-get)?\s+(remove|purge)\s+.*-y/\<close>
    rule (seqs [Bnd, lit ''apt'', Opt (lit ''-get''), Plus ws, alts [lit ''remove'',
          lit ''purge''], Plus ws, Star Any, lit ''-y''])
      False ''Auto-confirm package removal'',
    \<comment> \<open>/\byum\s+remove\s+.*-y/\<close>
    rule (seqs [Bnd, lit ''yum'', Plus ws, lit ''remove'', Plus ws, Star Any, lit ''-y''])
      False ''Auto-confirm package removal'',
    \<comment> \<open>/\bpip\s+uninstall\s+.*-y/\<close>
    rule (seqs [Bnd, lit ''pip'', Plus ws, lit ''uninstall'', Plus ws, Star Any, lit ''-y''])
      False ''Auto-confirm pip uninstall'',
    \<comment> \<open>/\btruncate\s+-s\s*0/\<close>
    rule (seqs [Bnd, lit ''truncate'', Plus ws, lit ''-s'', Star ws, Chr (CHR ''0'')])
      False ''Truncate file to zero'',
    \<comment> \<open>/>\s*\/etc\//\<close>
    rule (seqs [Chr (CHR ''>''), Star ws, lit ''/etc/''])
      False ''Overwrite system config'',
    \<comment> \<open>/\bshred\b/\<close>
    rule (seqs [Bnd, lit ''shred'', Bnd])
      False ''Secure file deletion'',
    \<comment> \<open>/\bkill\s+-9\s+-1\b/\<close>
    rule (seqs [Bnd, lit ''kill'', Plus ws, lit ''-9'', Plus ws, lit ''-1'', Bnd])
      False ''Kill all processes'',
    \<comment> \<open>/\bkillall\s+-9/\<close>
    rule (seqs [Bnd, lit ''killall'', Plus ws, lit ''-9''])
      False ''Force kill processes'',
    \<comment> \<open>/\bshutdown\b/\<close>
    rule (seqs [Bnd, lit ''shutdown'', Bnd])
      False ''System shutdown'',
    \<comment> \<open>/\breboot\b/\<close>
    rule (seqs [Bnd, lit ''reboot'', Bnd])
      False ''System reboot'',
    \<comment> \<open>/\binit\s+[06]\b/\<close>
    rule (seqs [Bnd, lit ''init'', Plus ws, Cls [Single CHR ''0'', Single CHR ''6''], Bnd])
      False ''System halt/reboot'',
    \<comment> \<open>/curl.*\|\s*(ba)?sh/\<close>
    rule (seqs [lit ''curl'', Star Any, Chr (CHR ''|''), Star ws, Opt (lit ''ba''),
          lit ''sh''])
      False ''Pipe URL to shell'',
    \<comment> \<open>/wget.*\|\s*(ba)?sh/\<close>
    rule (seqs [lit ''wget'', Star Any, Chr (CHR ''|''), Star ws, Opt (lit ''ba''),
          lit ''sh''])
      False ''Pipe URL to shell'',
    \<comment> \<open>/\beval\s+"?\$\(curl/\<close>
    rule (seqs [Bnd, lit ''eval'', Plus ws, Opt (Chr (CHR 0x22)), lit ''$(curl''])
      False ''Eval remote code'',
    \<comment> \<open>/\bgit\s+push\s+.*--force/\<close>
    rule (seqs [Bnd, lit ''git'', Plus ws, lit ''push'', Plus ws, Star Any, lit ''--force''])
      False ''Force push (rewrites history)'',
    \<comment> \<open>/\bgit\s+reset\s+--hard\s+HEAD~/\<close>
    rule (seqs [Bnd, lit ''git'', Plus ws, lit ''reset'', Plus ws, lit ''--hard'', Plus ws,
          lit ''HEAD~''])
      False ''Hard reset (lose commits)'',
    \<comment> \<open>/\bgit\s+clean\s+-fd/\<close>
    rule (seqs [Bnd, lit ''git'', Plus ws, lit ''clean'', Plus ws, lit ''-fd''])
      False ''Force clean untracked files'',
    \<comment> \<open>/\bDROP\s+(DATABASE|TABLE)\b/i\<close>
    rule (seqs [Bnd, lit ''DROP'', Plus ws, alts [lit ''DATABASE'', lit ''TABLE''], Bnd])
      True ''Drop database/table'',
    \<comment> \<open>/\bTRUNCATE\s+TABLE\b/i\<close>
    rule (seqs [Bnd, lit ''TRUNCATE'', Plus ws, lit ''TABLE'', Bnd])
      True ''Truncate table'',
    \<comment> \<open>/\bDELETE\s+FROM\s+\w+\s*;?\s*$/i\<close>
    rule (seqs [Bnd, lit ''DELETE'', Plus ws, lit ''FROM'', Plus ws, Plus wd, Star ws,
          Opt (Chr (CHR '';'')), Star ws, Eol])
      True ''Delete all rows (no WHERE)'',
    \<comment> \<open>/\bexport\s+(PATH|LD_PRELOAD|LD_LIBRARY_PATH)=/\<close>
    rule (seqs [Bnd, lit ''export'', Plus ws, alts [lit ''PATH'', lit ''LD_PRELOAD'',
          lit ''LD_LIBRARY_PATH''], Chr (CHR ''='')])
      False ''Modify critical env var'',
    \<comment> \<open>/\bunset\s+(PATH|HOME)\b/\<close>
    rule (seqs [Bnd, lit ''unset'', Plus ws, alts [lit ''PATH'', lit ''HOME''], Bnd])
      False ''Unset critical env var'',
    \<comment> \<open>/:\(\)\s*{\s*:\|:&\s*}/\<close>
    rule (seqs [lit '':()'', Star ws, Chr (CHR ''{''), Star ws, lit '':|:&'', Star ws,
          Chr (CHR ''}'')])
      False ''Fork bomb'',
    \<comment> \<open>/while\s+true.*do.*done/\<close>
    rule (seqs [lit ''while'', Plus ws, lit ''true'', Star Any, lit ''do'', Star Any,
          lit ''done''])
      False ''Infinite loop''
  ]\<close>

record check_result =
  dangerous :: bool
  result_reason :: "string option"

fun checkCommandLoop :: "pattern_entry list \<Rightarrow> string \<Rightarrow> check_result" where
  \<comment> \<open>the \<open>for ... of\<close> loop of \<open>checkCommand\<close> over the remaining entries\<close>
  "checkCommandLoop [] cmd = \<lparr>dangerous = False, result_reason = None\<rparr>"
| "checkCommandLoop (e # es) cmd =
     (if RegExp_test (pattern e) cmd then \<lparr>dangerous = True, result_reason = Some (reason e)\<rparr>
      else checkCommandLoop es cmd)"

definition checkCommand :: "string \<Rightarrow> check_result" where
  "checkCommand cmd = checkCommandLoop DANGEROUS_PATTERNS cmd"

datatype decision = Allow | Forbidden string | Dangerous string

definition classify :: "string \<Rightarrow> decision" where
  \<comment> \<open>the result of \<open>checkCommand\<close> read as the specification's command decision; the
      source has no list of forbidden patterns, so no branch produces \<^const>\<open>Forbidden\<close>\<close>
  "classify cmd =
     (case result_reason (checkCommand cmd) of
        Some why \<Rightarrow> if dangerous (checkCommand cmd) then Dangerous why else Allow
      | None \<Rightarrow> Allow)"

definition matchingReasons :: "string \<Rightarrow> string list" where
  \<comment> \<open>the reasons of all entries whose pattern matches, in declared order\<close>
  "matchingReasons cmd =
     map reason (filter (\<lambda>e. RegExp_test (pattern e) cmd) DANGEROUS_PATTERNS)"

subsection \<open>The pending-command store\<close>

record PendingCommand =
  pc_id :: string
  pc_sessionId :: string
  pc_chatId :: int
  pc_command :: string
  pc_cwd :: string
  pc_reason :: string
  pc_createdAt :: nat

text \<open>
  The module state: the map \<open>pendingCommands\<close>, the timeouts that \<open>setTimeout\<close> has
  registered and that have not run yet (the time each becomes due and the id its callback
  deletes), and the clock \<open>Date.now()\<close> reads, in milliseconds. The clock does not move
  during one call: the two \<open>Date.now()\<close> of \<open>storePendingCommand\<close> read the same value,
  and the timeout it registers is due \<open>COMMAND_TIMEOUT\<close> after it.
\<close>

record approvals =
  pendingCommands :: "string \<rightharpoonup> PendingCommand"
  timeouts :: "(nat \<times> string) list"
  clock :: nat

definition COMMAND_TIMEOUT :: nat where
  "COMMAND_TIMEOUT = 5 * 60 * 1000"

definition newId :: "nat \<Rightarrow> string \<Rightarrow> string" where
  \<comment> \<open>\<open>`cmd_${Date.now()}_${Math.random().toString(36).slice(2, 8)}`\<close>; the random suffix is a
      parameter\<close>
  "newId t rnd = ''cmd_'' @ numToString t @ ''_'' @ rnd"

definition storePendingCommand ::
  "string \<Rightarrow> string \<Rightarrow> int \<Rightarrow> string \<Rightarrow> string \<Rightarrow> string \<Rightarrow> approvals \<Rightarrow> string \<times> approvals" where
  "storePendingCommand rnd sessionId chatId command cwd why st =
     (let ident = newId (clock st) rnd in
      (ident,
       st\<lparr>pendingCommands := (pendingCommands st)(ident \<mapsto>
             \<lparr>pc_id = ident, pc_sessionId = sessionId, pc_chatId = chatId, pc_command = command,
              pc_cwd = cwd, pc_reason = why, pc_createdAt = clock st\<rparr>),
          timeouts := timeouts st @ [(clock st + COMMAND_TIMEOUT, ident)]\<rparr>))"

definition consumePendingCommand :: "string \<Rightarrow> approvals \<Rightarrow> PendingCommand option \<times> approvals" where
  "consumePendingCommand ident st =
     (case pendingCommands st ident of
        Some cmd \<Rightarrow> (Some cmd, st\<lparr>pendingCommands := (pendingCommands st)(ident := None)\<rparr>)
      | None \<Rightarrow> (None, st))"

definition cancelPendingCommand :: "string \<Rightarrow> approvals \<Rightarrow> bool \<times> approvals" where
  "cancelPendingCommand ident st =
     (pendingCommands st ident \<noteq> None, st\<lparr>pendingCommands := (pendingCommands st)(ident := None)\<rparr>)"

definition timeoutCallback :: "string \<Rightarrow> approvals \<Rightarrow> approvals" where
  \<comment> \<open>the arrow function handed to \<open>setTimeout\<close>: \<open>pendingCommands.delete(id)\<close>\<close>
  "timeoutCallback ident st = st\<lparr>pendingCommands := (pendingCommands st)(ident := None)\<rparr>"

text \<open>
  What can happen to the store, one event at a time. \<open>RunTimeout k\<close> is the runtime
  running the callback of the \<open>k\<close>-th registered timeout; the runtime does so only once
  the timeout is due, and it gives no bound on how much later. \<open>Elapse d\<close> lets \<open>d\<close>
  milliseconds pass.
\<close>

datatype approval_event =
    Store string string int string string string
  | Consume string
  | Cancel string
  | RunTimeout nat
  | Elapse nat

fun removeAt :: "nat \<Rightarrow> 'a list \<Rightarrow> 'a list" where
  "removeAt k [] = []"
| "removeAt 0 (x # xs) = xs"
| "removeAt (Suc k) (x # xs) = x # removeAt k xs"

fun lookupAt :: "nat \<Rightarrow> 'a list \<Rightarrow> 'a option" where
  "lookupAt k [] = None"
| "lookupAt 0 (x # xs) = Some x"
| "lookupAt (Suc k) (x # xs) = lookupAt k xs"

fun approvalStep :: "approval_event \<Rightarrow> approvals \<Rightarrow> approvals" where
  "approvalStep (Store rnd sessionId chatId command cwd why) st =
     snd (storePendingCommand rnd sessionId chatId command cwd why st)"
| "approvalStep (Consume ident) st = snd (consumePendingCommand ident st)"
| "approvalStep (Cancel ident) st = snd (cancelPendingCommand ident st)"
| "approvalStep (RunTimeout k) st =
     (case lookupAt k (timeouts st) of
        None \<Rightarrow> st
      | Some (due, ident) \<Rightarrow>
          if due \<le> clock st then timeoutCallback ident (st\<lparr>timeouts := removeAt k (timeouts st)\<rparr>)
          else st)"
| "approvalStep (Elapse d) st = st\<lparr>clock := clock st + d\<rparr>"

fun approvalRun :: "approval_event list \<Rightarrow> approvals \<Rightarrow> approvals" where
  "approvalRun [] st = st"
| "approvalRun (e # es) st = approvalRun es (approvalStep e st)"

definition approvalsInit :: "nat \<Rightarrow> approvals" where
  "approvalsInit t0 = \<lparr>pendingCommands = Map.empty, timeouts = [], clock = t0\<rparr>"

fun storesId :: "string \<Rightarrow> approval_event \<Rightarrow> approvals \<Rightarrow> bool" where
  \<comment> \<open>the event, run in the given state, is a store that hands out this id\<close>
  "storesId ident (Store rnd sessionId chatId command cwd why) st = (newId (clock st) rnd = ident)"
| "storesId ident (Consume i) st = False"
| "storesId ident (Cancel i) st = False"
| "storesId ident (RunTimeout k) st = False"
| "storesId ident (Elapse d) st = False"

fun reissued :: "string \<Rightarrow> approval_event list \<Rightarrow> approvals \<Rightarrow> bool" where
  \<comment> \<open>some store among the events hands out this id again\<close>
  "reissued ident [] st = False"
| "reissued ident (e # es) st = (storesId ident e st \<or> reissued ident es (approvalStep e st))"


section \<open>File tools (src/tools/files.ts)\<close>

subsection \<open>The functions of Node's \<open>path\<close> module (POSIX) that the tools call\<close>

fun splitOn :: "char \<Rightarrow> string \<Rightarrow> string list" where
  \<comment> \<open>\<open>String.prototype.split\<close> at a one-character separator\<close>
  "splitOn sep [] = [[]]"
| "splitOn sep (c # cs) =
     (if c = sep then [] # splitOn sep cs
      else (case splitOn sep cs of [] \<Rightarrow> [[c]] | x # xs \<Rightarrow> (c # x) # xs))"

fun joinWith :: "string \<Rightarrow> string list \<Rightarrow> string" where
  \<comment> \<open>\<open>Array.prototype.join\<close>\<close>
  "joinWith sep [] = []"
| "joinWith sep [x] = x"
| "joinWith sep (x # xs) = x @ sep @ joinWith sep xs"

definition normStep :: "bool \<Rightarrow> string list \<Rightarrow> string \<Rightarrow> string list" where
  \<comment> \<open>what \<open>normalizeString\<close> does with one segment: an empty segment and \<open>.\<close> are skipped,
      \<open>..\<close> removes the last segment kept so far (unless that is itself \<open>..\<close> or nothing is
      left, when \<open>..\<close> is kept only if the path may climb above its root), any other segment
      is kept\<close>
  "normStep allowAboveRoot acc seg =
     (if seg = [] \<or> seg = ''.'' then acc
      else if seg = ''..'' then
        (if acc \<noteq> [] \<and> last acc \<noteq> ''..'' then butlast acc
         else if allowAboveRoot then acc @ [''..''] else acc)
      else acc @ [seg])"

definition normalizeString :: "string \<Rightarrow> bool \<Rightarrow> string" where
  "normalizeString p allowAboveRoot =
     joinWith ''/'' (foldl (normStep allowAboveRoot) [] (splitOn CHR ''/'' p))"

definition normalize :: "string \<Rightarrow> string" where
  "normalize p =
     (if p = [] then ''.''
      else
        (let isAbsolute = (hd p = CHR ''/'');
             trailingSeparator = (last p = CHR ''/'');
             q = normalizeString p (\<not> isAbsolute)
         in if q = [] then (if isAbsolute then ''/'' else if trailingSeparator then ''./'' else ''.'')
            else (if isAbsolute then ''/'' else []) @ q @ (if trailingSeparator then ''/'' else [])))"

definition join :: "string \<Rightarrow> string \<Rightarrow> string" where
  \<comment> \<open>\<open>path.join\<close> of two arguments\<close>
  "join a b =
     (let joined = (if a = [] then b else if b = [] then a else a @ ''/'' @ b)
      in if joined = [] then ''.'' else normalize joined)"

definition resolve :: "string \<Rightarrow> string \<Rightarrow> string" where
  \<comment> \<open>\<open>path.resolve\<close> of one argument; the first parameter is \<open>process.cwd()\<close>, which
      \<open>resolve\<close> falls back on when the argument is not absolute\<close>
  "resolve processCwd p =
     (let own = (if p = [] then [] else p @ ''/'');
          ownAbsolute = startsWith p ''/'';
          resolvedPath = (if ownAbsolute then own else processCwd @ ''/'' @ own);
          resolvedAbsolute = (ownAbsolute \<or> startsWith processCwd ''/'');
          q = normalizeString resolvedPath (\<not> resolvedAbsolute)
      in if resolvedAbsolute then ''/'' @ q else if q = [] then ''.'' else q)"

definition plainSegment :: "string \<Rightarrow> bool" where
  \<comment> \<open>a segment of a resolved path: a name, not empty, not \<open>.\<close> and not \<open>..\<close>\<close>
  "plainSegment s = (s \<noteq> [] \<and> s \<noteq> ''.'' \<and> s \<noteq> ''..'' \<and> CHR ''/'' \<notin> set s)"

definition basename :: "string \<Rightarrow> string" where
  \<comment> \<open>the last segment of the path, trailing separators ignored\<close>
  "basename p =
     rev (takeWhile (\<lambda>c. c \<noteq> CHR ''/'') (dropWhile (\<lambda>c. c = CHR ''/'') (rev p)))"

definition dirname :: "string \<Rightarrow> string" where
  \<comment> \<open>the path up to the separator in front of its last segment; the scan for that
      separator stops before index 0\<close>
  "dirname p =
     (if p = [] then ''.''
      else
        (let hasRoot = (hd p = CHR ''/'');
             rest = dropWhile (\<lambda>c. c \<noteq> CHR ''/'') (dropWhile (\<lambda>c. c = CHR ''/'') (rev (tl p)))
         in if rest = [] then (if hasRoot then ''/'' else ''.'')
            else if hasRoot \<and> length rest = 1 then ''//''
            else take (length rest) p))"

subsection \<open>Sensitive files\<close>

definition SENSITIVE_FILES :: "string list" where
  "SENSITIVE_FILES = [
    ''.env'',
    ''.env.local'',
    ''.env.production'',
    ''.env.development'',
    ''.env.staging'',
    ''credentials.json'',
    ''credentials.yaml'',
    ''secrets.json'',
    ''secrets.yaml'',
    ''.secrets'',
    ''service-account.json'',
    ''serviceAccountKey.json'',
    ''.npmrc'',
    ''.pypirc'',
    ''id_rsa'',
    ''id_ed25519'',
    ''id_ecdsa'',
    ''id_dsa'',
    ''.pem'',
    ''.key''
  ]"

definition re :: "regex \<Rightarrow> bool \<Rightarrow> RegExp" where
  "re r ic = \<lparr>source = r, ignoreCase = ic\<rparr>"

definition SENSITIVE_PATTERNS :: "RegExp list" where
  \<open>SENSITIVE_PATTERNS = [
    \<comment> \<open>/\.env(\.[a-z]+)?$/i\<close>
    re (seqs [lit ''.env'', Opt (seqs [Chr (CHR ''.''), Plus (Cls [Range CHR ''a'' CHR ''z''])]), Eol])
      True,
    \<comment> \<open>/credentials?\.(json|yaml|yml)$/i\<close>
    re (seqs [lit ''credential'', Opt (Chr (CHR ''s'')), Chr (CHR ''.''),
          alts [lit ''json'', lit ''yaml'', lit ''yml''], Eol])
      True,
    \<comment> \<open>/secrets?\.(json|yaml|yml)$/i\<close>
    re (seqs [lit ''secret'', Opt (Chr (CHR ''s'')), Chr (CHR ''.''),
          alts [lit ''json'', lit ''yaml'', lit ''yml''], Eol])
      True,
    \<comment> \<open>/service.?account.*\.json$/i\<close>
    re (seqs [lit ''service'', Opt Any, lit ''account'', Star Any, lit ''.json'', Eol])
      True,
    \<comment> \<open>/private.?key/i\<close>
    re (seqs [lit ''private'', Opt Any, lit ''key''])
      True,
    \<comment> \<open>/id_(rsa|dsa|ecdsa|ed25519)$/i\<close>
    re (seqs [lit ''id_'', alts [lit ''rsa'', lit ''dsa'', lit ''ecdsa'', lit ''ed25519''], Eol])
      True,
    \<comment> \<open>/\.(pem|key|p12|pfx)$/i\<close>
    re (seqs [Chr (CHR ''.''), alts [lit ''pem'', lit ''key'', lit ''p12'', lit ''pfx''], Eol])
      True
  ]\<close>

definition isSensitiveFile :: "string \<Rightarrow> bool" where
  "isSensitiveFile filePath =
     (let fileName = toLowerCase (basename filePath);
          fullPath = toLowerCase filePath
      in if list_ex (\<lambda>f. fileName = toLowerCase f) SENSITIVE_FILES then True
         else if list_ex (\<lambda>p. RegExp_test p fullPath) SENSITIVE_PATTERNS then True
         else if includesStr fullPath ''/.ssh/''
                 \<or> includesStr fullPath ([CHR 0x5C] @ ''.ssh'' @ [CHR 0x5C]) then True
         else False)"

subsection \<open>The host: file system and child processes\<close>

text \<open>
  What the tools ask of the host is a parameter of the model. A call that can throw
  returns its exception as a value: \<open>realpathSync\<close> and \<open>lstatSync\<close> return \<open>None\<close> when
  they throw, \<open>readFileSync\<close> returns \<open>Inl\<close> of the exception's message, \<open>mkdirSync\<close>,
  \<open>writeFileSync\<close> return the message when they throw, \<open>execSync\<close> returns \<open>None\<close>
  when it throws. Every call that reads a file's contents, changes the file system or
  starts a process is also recorded, in order, next to the tool's result.
\<close>

record host =
  processCwd :: string
  existsSync :: "string \<Rightarrow> bool"
  realpathSync :: "string \<Rightarrow> string option"
  lstatIsSymbolicLink :: "string \<Rightarrow> bool option"
  readFileSync :: "string \<Rightarrow> string + string"
  mkdirSync :: "string \<Rightarrow> string option"
  writeFileSync :: "string \<Rightarrow> string \<Rightarrow> string option"
  execSync :: "string \<Rightarrow> string option"

datatype host_call =
    ReadFile string
  | MkDir string
  | WriteFile string string
  | Exec string

datatype escape_reason =
    Outside_workspace string
  | Sensitive_location string

text \<open>
  A tool returns \<open>{ success, output?, error? }\<close>. The \<open>error\<close> strings are modelled by
  their template. The four messages that start with
  the no-entry sign and \<open>BLOCKED:\<close> are the security blocks.
\<close>

datatype tool_error =
    Blocked_sensitive_read string
  | Blocked_escape escape_reason
  | Blocked_outside_workspace
  | Blocked_sensitive_write string
  | Blocked_secret_search
  | File_not_found string
  | Exception string

record tool_result =
  success :: bool
  r_output :: "string option"
  r_error :: "tool_error option"

definition succeeded :: "string \<Rightarrow> tool_result" where
  "succeeded out = \<lparr>success = True, r_output = Some out, r_error = None\<rparr>"

definition failed :: "tool_error \<Rightarrow> tool_result" where
  "failed e = \<lparr>success = False, r_output = None, r_error = Some e\<rparr>"

fun isBlock :: "tool_error \<Rightarrow> bool" where
  "isBlock (Blocked_sensitive_read b) = True"
| "isBlock (Blocked_escape why) = True"
| "isBlock Blocked_outside_workspace = True"
| "isBlock (Blocked_sensitive_write b) = True"
| "isBlock Blocked_secret_search = True"
| "isBlock (File_not_found p) = False"
| "isBlock (Exception msg) = False"

definition sensitivePaths :: "string list" where
  "sensitivePaths = [''/etc'', ''/root'', ''/home'', ''/proc'', ''/sys'', ''/dev'', ''/var'']"

definition isSymlinkEscape :: "host \<Rightarrow> string \<Rightarrow> string \<Rightarrow> escape_reason option" where
  \<comment> \<open>\<open>None\<close> is \<open>{ escape: false }\<close>; the three \<open>None\<close> results of a host call that threw
      are the \<open>catch\<close> branch\<close>
  "isSymlinkEscape h filePath workspacePath =
     (if \<not> existsSync h filePath then None
      else
        (case realpathSync h filePath of
           None \<Rightarrow> None
         | Some realPath \<Rightarrow>
             (case realpathSync h workspacePath of
                None \<Rightarrow> None
              | Some realWorkspace \<Rightarrow>
                  if \<not> startsWith realPath (realWorkspace @ ''/'') \<and> realPath \<noteq> realWorkspace
                  then Some (Outside_workspace realPath)
                  else
                    (case lstatIsSymbolicLink h filePath of
                       None \<Rightarrow> None
                     | Some isLink \<Rightarrow>
                         if isLink then
                           (case find (\<lambda>sensitive. startsWith realPath sensitive) sensitivePaths of
                              Some sensitive \<Rightarrow> Some (Sensitive_location sensitive)
                            | None \<Rightarrow> None)
                         else None))))"

subsection \<open>\<open>read_file\<close>\<close>

definition fullPathOf :: "string \<Rightarrow> string \<Rightarrow> string" where
  \<comment> \<open>\<open>args.path.startsWith('/') ? args.path : join(cwd, args.path)\<close>\<close>
  "fullPathOf cwd p = (if startsWith p ''/'' then p else join cwd p)"

definition numberLines :: "nat \<Rightarrow> string list \<Rightarrow> string list" where
  \<comment> \<open>\<open>.map((l, i) => `${start + i + 1}|${l}`)\<close>\<close>
  "numberLines start ls =
     map (\<lambda>(i, l). numToString (start + i + 1) @ ''|'' @ l) (zip [0..<length ls] ls)"

definition selectLines :: "nat option \<Rightarrow> nat option \<Rightarrow> string \<Rightarrow> string" where
  \<comment> \<open>\<open>offset\<close> and \<open>limit\<close> are taken to be non-negative integers; as in the source an
      \<open>offset\<close> of 0 counts as 1 and a \<open>limit\<close> of 0 as no limit\<close>
  "selectLines offset limit content =
     (if offset \<noteq> None \<or> limit \<noteq> None then
        (let lines = splitOn CHR 0x0A content;
             start = (case offset of None \<Rightarrow> 1 | Some n \<Rightarrow> if n = 0 then 1 else n) - 1;
             end = (case limit of None \<Rightarrow> length lines
                    | Some n \<Rightarrow> if n = 0 then length lines else start + n)
         in joinWith [CHR 0x0A] (numberLines start (take (end - start) (drop start lines))))
      else content)"

definition truncateContent :: "string \<Rightarrow> string" where
  "truncateContent content =
     (if length content > 100000 then take 100000 content @ [CHR 0x0A] @ ''...(truncated)''
      else content)"

definition executeRead ::
  "host \<Rightarrow> string \<Rightarrow> nat option \<Rightarrow> nat option \<Rightarrow> string \<Rightarrow> tool_result \<times> host_call list" where
  "executeRead h p offset limit cwd =
     (let fullPath = fullPathOf cwd p in
      if isSensitiveFile fullPath then (failed (Blocked_sensitive_read (basename fullPath)), [])
      else
        (case isSymlinkEscape h fullPath cwd of
           Some why \<Rightarrow> (failed (Blocked_escape why), [])
         | None \<Rightarrow>
             if \<not> existsSync h fullPath then (failed (File_not_found fullPath), [])
             else
               (case readFileSync h fullPath of
                  Inl msg \<Rightarrow> (failed (Exception msg), [ReadFile fullPath])
                | Inr content \<Rightarrow>
                    (let shown = truncateContent (selectLines offset limit content)
                     in (succeeded (if shown = [] then ''(empty file)'' else shown),
                         [ReadFile fullPath])))))"

subsection \<open>\<open>write_file\<close>\<close>

definition writeTo :: "host \<Rightarrow> string \<Rightarrow> string \<Rightarrow> string \<Rightarrow> tool_result \<times> host_call list" where
  \<comment> \<open>the \<open>try\<close> block of \<open>executeWrite\<close>\<close>
  "writeTo h p fullPath content =
     (let dir = dirname fullPath in
      case (if existsSync h dir then None else mkdirSync h dir) of
        Some msg \<Rightarrow> (failed (Exception msg), [MkDir dir])
      | None \<Rightarrow>
          (let made = (if existsSync h dir then [] else [MkDir dir]) in
           case writeFileSync h fullPath content of
             Some msg \<Rightarrow> (failed (Exception msg), made @ [WriteFile fullPath content])
           | None \<Rightarrow>
               (succeeded (''Written '' @ numToString (length content) @ '' bytes to '' @ p),
                made @ [WriteFile fullPath content])))"

definition executeWrite ::
  "host \<Rightarrow> string \<Rightarrow> string \<Rightarrow> string \<Rightarrow> tool_result \<times> host_call list" where
  "executeWrite h p content cwd =
     (let fullPath = fullPathOf cwd p;
          resolvedPath = resolve (processCwd h) fullPath;
          resolvedCwd = resolve (processCwd h) cwd
      in if \<not> startsWith resolvedPath (resolvedCwd @ ''/'') \<and> resolvedPath \<noteq> resolvedCwd
         then (failed Blocked_outside_workspace, [])
         else if isSensitiveFile fullPath
         then (failed (Blocked_sensitive_write (basename fullPath)), [])
         else
           (case isSymlinkEscape h fullPath cwd of
              Some why \<Rightarrow> (failed (Blocked_escape why), [])
            | None \<Rightarrow> writeTo h p fullPath content))"

subsection \<open>\<open>search_text\<close>\<close>

definition secretPatterns :: RegExp where
  \<comment> \<open>\<open>/password|secret|token|api.?key|credential|private.?key/i\<close>\<close>
  "secretPatterns =
     re (alts [lit ''password'', lit ''secret'', lit ''token'', seqs [lit ''api'', Opt Any, lit ''key''],
          lit ''credential'', seqs [lit ''private'', Opt Any, lit ''key'']])
       True"

definition grepFlags :: "nat option \<Rightarrow> nat option \<Rightarrow> bool \<Rightarrow> bool \<Rightarrow> string list" where
  \<comment> \<open>an absent option and the number 0 are both falsy\<close>
  "grepFlags context_before context_after files_only ignore_case =
     [''-rn'']
     @ (if ignore_case then [''-i''] else [])
     @ (if files_only then [''-l''] else [])
     @ (case context_before of None \<Rightarrow> [] | Some n \<Rightarrow> if n = 0 then [] else [''-B'' @ numToString n])
     @ (case context_after of None \<Rightarrow> [] | Some n \<Rightarrow> if n = 0 then [] else [''-A'' @ numToString n])
     @ [''--exclude-dir=node_modules'', ''--exclude-dir=.git'', ''--exclude-dir=dist'']
     @ [''--exclude=*.env*'', ''--exclude=*credentials*'', ''--exclude=*secret*'']
     @ [''--exclude=*.pem'', ''--exclude=*.key'', ''--exclude=id_rsa*'']"

definition escapeQuotes :: "string \<Rightarrow> string" where
  \<comment> \<open>\<open>.replace(/"/g, '\\"')\<close>\<close>
  "escapeQuotes s = concat (map (\<lambda>c. if c = CHR 0x22 then [CHR 0x5C, CHR 0x22] else [c]) s)"

definition grepCommand :: "string list \<Rightarrow> string \<Rightarrow> string \<Rightarrow> string" where
  "grepCommand flags pat searchPath =
     ''grep '' @ joinWith '' '' flags @ '' '' @ [CHR 0x22] @ escapeQuotes pat @ [CHR 0x22]
     @ '' '' @ [CHR 0x22] @ searchPath @ [CHR 0x22] @ '' 2>/dev/null | head -200''"

definition executeSearchText ::
  "host \<Rightarrow> string \<Rightarrow> string option \<Rightarrow> nat option \<Rightarrow> nat option \<Rightarrow> bool \<Rightarrow> bool \<Rightarrow> string
     \<Rightarrow> tool_result \<times> host_call list" where
  \<comment> \<open>the arguments after the host: \<open>pattern\<close>, \<open>path\<close>, \<open>context_before\<close>, \<open>context_after\<close>,
      \<open>files_only\<close>, \<open>ignore_case\<close> (an absent flag is \<open>False\<close>), then \<open>cwd\<close>\<close>
  "executeSearchText h pat p context_before context_after files_only ignore_case cwd =
     (if RegExp_test secretPatterns pat then (failed Blocked_secret_search, [])
      else
        (let searchPath = (case p of None \<Rightarrow> cwd
                           | Some q \<Rightarrow> if q = [] then cwd else fullPathOf cwd q);
             cmd = grepCommand (grepFlags context_before context_after files_only ignore_case)
                     pat searchPath
         in case execSync h cmd of
              Some out \<Rightarrow> (succeeded (if out = [] then ''(no matches)'' else out), [Exec cmd])
            | None \<Rightarrow> (succeeded ''(no matches)'', [Exec cmd])))"

subsection \<open>What \<open>search_text\<close> refuses, in words\<close>

fun tails :: "string \<Rightarrow> string list" where
  \<comment> \<open>the string from each of its positions on, the end included\<close>
  "tails [] = [[]]"
| "tails (c # cs) = (c # cs) # tails cs"

definition claimedSecretWords :: "string list" where
  "claimedSecretWords =
     [''password'', ''secret'', ''token'', ''credential'', ''api key'', ''api-key'', ''apikey'',
      ''private key'', ''private-key'', ''privatekey'']"

definition claimedSecret :: "string \<Rightarrow> bool" where
  \<comment> \<open>the string contains, case-insensitively, one of the listed substrings\<close>
  "claimedSecret s = list_ex (\<lambda>w. includesStr (toLowerCase s) w) claimedSecretWords"

definition keyFollows :: "string \<Rightarrow> bool" where
  \<comment> \<open>\<open>key\<close> comes next, or after one character that is not a line terminator\<close>
  "keyFollows u =
     (startsWith (toLowerCase u) ''key''
      \<or> (case u of [] \<Rightarrow> False | c # v \<Rightarrow> \<not> isLineTerminator c \<and> startsWith (toLowerCase v) ''key''))"

definition secretAt :: "string \<Rightarrow> bool" where
  "secretAt t =
     (startsWith (toLowerCase t) ''password''
      \<or> startsWith (toLowerCase t) ''secret''
      \<or> startsWith (toLowerCase t) ''token''
      \<or> (startsWith (toLowerCase t) ''api'' \<and> keyFollows (drop 3 t))
      \<or> startsWith (toLowerCase t) ''credential''
      \<or> (startsWith (toLowerCase t) ''private'' \<and> keyFollows (drop 7 t)))"

definition secretLike :: "string \<Rightarrow> bool" where
  \<comment> \<open>somewhere in the string, ignoring case: \<open>password\<close>, \<open>secret\<close>, \<open>token\<close>, \<open>credential\<close>,
      or \<open>api\<close> or \<open>private\<close> with \<open>key\<close> following as above\<close>
  "secretLike s = list_ex secretAt (tails s)"

fun litPrefix :: "bool \<Rightarrow> string \<Rightarrow> string \<Rightarrow> bool" where
  \<comment> \<open>the input starts with the literal, character by character as the matcher compares\<close>
  "litPrefix ic t [] = True"
| "litPrefix ic [] (d # ds) = False"
| "litPrefix ic (c # cs) (d # ds) = (chrMatch ic d c \<and> litPrefix ic cs ds)"

definition lowerLetter :: "char \<Rightarrow> bool" where
  "lowerLetter d = (CHR ''a'' \<le> d \<and> d \<le> CHR ''z'')"

section \<open>Rate limiting and the active-user set (bot/src/rate-limiter.ts, bot/src/config.ts)\<close>

record rateLimitConfig =
  globalMinInterval :: int
  groupMinInterval :: int
  maxRetries :: nat
  retryBuffer :: nat

definition CONFIG_rateLimit :: rateLimitConfig where
  "CONFIG_rateLimit =
     \<lparr>globalMinInterval = 200, groupMinInterval = 5000, maxRetries = 3, retryBuffer = 5\<rparr>"

definition CONFIG_users_maxConcurrent :: int where
  "CONFIG_users_maxConcurrent = 10"

subsection \<open>\<open>safeSend\<close>\<close>

text \<open>
  An exception of the wrapped send function, as far as \<open>safeSend\<close> looks at it:
  \<open>e.response?.error_code\<close>, \<open>e.response?.parameters?.retry_after\<close> (both \<open>None\<close> when
  absent; the retry-after value is a number of seconds, taken to be a non-negative
  integer) and the message it logs.
\<close>

record send_error =
  error_code :: "nat option"
  retry_after :: "nat option"
  message :: string

datatype 'a outcome = Resolved 'a | Rejected send_error

text \<open>
  The wrapped function is called once per attempt; \<open>fn k\<close> is how its call in attempt \<open>k\<close>
  ends. The limiter's state holds the two module variables, the clock \<open>Date.now()\<close>
  reads (milliseconds; it advances by the delay of each timeout that is awaited), and
  the record of what \<open>safeSend\<close> did: the delays it awaited and the attempts it made.
  \<open>safeSend\<close> holds \<open>sendMutex\<close> from its first line to its \<open>finally\<close>, so one call runs
  from start to end before the next.
\<close>

datatype send_event = Sleep int | Attempt nat

record limiter =
  globalLastSend :: int
  lastGroupMessage :: "int \<rightharpoonup> int"
  now :: int
  events :: "send_event list"

definition sleep :: "int \<Rightarrow> limiter \<Rightarrow> limiter" where
  \<comment> \<open>\<open>await new Promise(r => setTimeout(r, ms))\<close>\<close>
  "sleep ms st = st\<lparr>now := now st + ms, events := events st @ [Sleep ms]\<rparr>"

definition orDefault :: "nat option \<Rightarrow> nat \<Rightarrow> nat" where
  \<comment> \<open>\<open>x || d\<close> on an optional number: \<open>undefined\<close> and \<open>0\<close> are both falsy\<close>
  "orDefault x d = (case x of None \<Rightarrow> d | Some n \<Rightarrow> if n = 0 then d else n)"

function retryLoop :: "nat \<Rightarrow> nat \<Rightarrow> (nat \<Rightarrow> 'a outcome) \<Rightarrow> limiter \<Rightarrow> 'a option \<times> limiter" where
  \<comment> \<open>\<open>for (let attempt = ...; attempt <= maxRetries; attempt++)\<close>, from the given attempt on\<close>
  "retryLoop maxR attempt fn st =
     (if attempt \<le> maxR then
        (let st1 = st\<lparr>events := events st @ [Attempt attempt]\<rparr> in
         case fn attempt of
           Resolved v \<Rightarrow> (Some v, st1)
         | Rejected e \<Rightarrow>
             if error_code e = Some 429 then
               (let retryAfter = orDefault (retry_after e) 30 + retryBuffer CONFIG_rateLimit in
                if attempt < maxR then
                  (let st2 = sleep (int retryAfter * 1000) st1 in
                   retryLoop maxR (attempt + 1) fn (st2\<lparr>globalLastSend := now st2\<rparr>))
                else retryLoop maxR (attempt + 1) fn st1)
             else (None, st1))
      else (None, st))"
  by pat_completeness auto
termination
  by (relation "measure (\<lambda>(maxR, attempt, fn, st). Suc maxR - attempt)") auto

definition awaitIntervals :: "int \<Rightarrow> limiter \<Rightarrow> limiter" where
  \<comment> \<open>the waits of \<open>safeSend\<close> before its first attempt\<close>
  "awaitIntervals chatId st =
     (let globalWait = globalMinInterval CONFIG_rateLimit - (now st - globalLastSend st);
          st1 = (if globalWait > 0 then sleep globalWait st else st);
          st2 =
            (if chatId < 0 then
               (let lastGroup = (case lastGroupMessage st1 chatId of None \<Rightarrow> 0 | Some t \<Rightarrow> t);
                    groupWait = groupMinInterval CONFIG_rateLimit - (now st1 - lastGroup);
                    st1' = (if groupWait > 0 then sleep groupWait st1 else st1)
                in st1'\<lparr>lastGroupMessage := (lastGroupMessage st1')(chatId \<mapsto> now st1')\<rparr>)
             else st1)
      in st2\<lparr>globalLastSend := now st2\<rparr>)"

definition safeSend :: "int \<Rightarrow> (nat \<Rightarrow> 'a outcome) \<Rightarrow> nat \<Rightarrow> limiter \<Rightarrow> 'a option \<times> limiter" where
  "safeSend chatId fn maxR st = retryLoop maxR 1 fn (awaitIntervals chatId st)"

definition settle :: "'a outcome \<Rightarrow> 'a option" where
  \<comment> \<open>what \<open>safeSend\<close> returns for a call that was not rate-limited\<close>
  "settle r = (case r of Resolved v \<Rightarrow> Some v | Rejected e \<Rightarrow> None)"

definition attemptsMade :: "send_event list \<Rightarrow> nat list" where
  "attemptsMade evs = concat (map (\<lambda>e. case e of Attempt k \<Rightarrow> [k] | Sleep ms \<Rightarrow> []) evs)"

definition rateLimited :: "'a outcome \<Rightarrow> bool" where
  \<comment> \<open>the call ended in the provider's rate-limit error\<close>
  "rateLimited r = (case r of Resolved v \<Rightarrow> False | Rejected e \<Rightarrow> error_code e = Some 429)"

definition backoff :: "'a outcome \<Rightarrow> int" where
  \<comment> \<open>the delay, in milliseconds, the source computes from a rate-limit error\<close>
  "backoff r =
     (case r of Resolved v \<Rightarrow> 0
      | Rejected e \<Rightarrow> int (orDefault (retry_after e) 30 + retryBuffer CONFIG_rateLimit) * 1000)"

fun retryEvents :: "nat \<Rightarrow> nat \<Rightarrow> (nat \<Rightarrow> 'a outcome) \<Rightarrow> send_event list" where
  \<comment> \<open>what the retry policy prescribes for \<open>n\<close> rate-limited attempts \<open>k, k+1, ...\<close> in a
      row, each followed by its wait\<close>
  "retryEvents 0 k fn = []"
| "retryEvents (Suc n) k fn = Attempt k # Sleep (backoff (fn k)) # retryEvents n (Suc k) fn"

subsection \<open>The active-user set\<close>

text \<open>
  \<open>activeUsers\<close> is a JavaScript \<open>Set\<close>: a list without repetitions in insertion order,
  whose \<open>size\<close> is its length.
\<close>

record users =
  activeUsers :: "int list"
  maxConcurrentUsers :: int

definition usersInit :: users where
  "usersInit = \<lparr>activeUsers = [], maxConcurrentUsers = CONFIG_users_maxConcurrent\<rparr>"

definition setMaxConcurrentUsers :: "int \<Rightarrow> users \<Rightarrow> users" where
  "setMaxConcurrentUsers m st = st\<lparr>maxConcurrentUsers := m\<rparr>"

definition canAcceptUser :: "int \<Rightarrow> users \<Rightarrow> bool" where
  "canAcceptUser userId st =
     (if userId \<in> set (activeUsers st) then True
      else int (length (activeUsers st)) < maxConcurrentUsers st)"

definition markUserActive :: "int \<Rightarrow> users \<Rightarrow> users" where
  "markUserActive userId st =
     (if userId \<in> set (activeUsers st) then st
      else st\<lparr>activeUsers := activeUsers st @ [userId]\<rparr>)"

definition markUserInactive :: "int \<Rightarrow> users \<Rightarrow> users" where
  "markUserInactive userId st = st\<lparr>activeUsers := removeAll userId (activeUsers st)\<rparr>"

text \<open>
  The caller is the \<open>text\<close> handler of the bot (\<open>bot/src/index.ts\<close>). One invocation of it,
  for a message of user \<open>u\<close>, calls \<open>canAcceptUser(u)\<close> (line 264) and returns if the answer
  is false or the message is taken for a prompt injection (line 275); otherwise it awaits
  \<open>setMessageReaction\<close> (line 286), calls \<open>markUserActive(u)\<close> (line 289), awaits the
  turn, and calls \<open>markUserInactive(u)\<close> in the \<open>finally\<close> block (line 340). The three
  functions are synchronous, so the module sees a sequence of calls; at each \<open>await\<close> the
  invocations for other messages may run, so the calls of different invocations
  interleave. \<open>followsProtocol admitted calls st\<close> holds of a sequence of calls in which
  every \<open>markUserActive(u)\<close> uses up one earlier \<open>canAcceptUser(u)\<close> that returned true
  (\<open>admitted\<close> lists the successful checks not used up yet).
\<close>

datatype user_call = CanAcceptUser int | MarkUserActive int | MarkUserInactive int

fun callStep :: "user_call \<Rightarrow> users \<Rightarrow> users" where
  "callStep (CanAcceptUser userId) st = st"
| "callStep (MarkUserActive userId) st = markUserActive userId st"
| "callStep (MarkUserInactive userId) st = markUserInactive userId st"

fun callRun :: "user_call list \<Rightarrow> users \<Rightarrow> users" where
  "callRun [] st = st"
| "callRun (c # cs) st = callRun cs (callStep c st)"

fun followsProtocol :: "int list \<Rightarrow> user_call list \<Rightarrow> users \<Rightarrow> bool" where
  "followsProtocol admitted [] st = True"
| "followsProtocol admitted (CanAcceptUser userId # cs) st =
     followsProtocol (if canAcceptUser userId st then userId # admitted else admitted) cs st"
| "followsProtocol admitted (MarkUserActive userId # cs) st =
     (userId \<in> set admitted
      \<and> followsProtocol (remove1 userId admitted) cs (markUserActive userId st))"
| "followsProtocol admitted (MarkUserInactive userId # cs) st =
     followsProtocol admitted cs (markUserInactive userId st)"


section \<open>Concrete inputs for the witnesses and counterexamples\<close>

definition storedExample :: approvals where
  \<comment> \<open>the store after one dangerous command was stored at time 1000\<close>
  "storedExample =
     snd (storePendingCommand ''k3x9ab'' ''s1'' 7 ''rm -rf build'' ''/workspace/7''
            ''Force recursive delete'' (approvalsInit 1000))"

definition storedRecordExample :: PendingCommand where
  "storedRecordExample =
     \<lparr>pc_id = ''cmd_1000_k3x9ab'', pc_sessionId = ''s1'', pc_chatId = 7,
      pc_command = ''rm -rf build'', pc_cwd = ''/workspace/7'',
      pc_reason = ''Force recursive delete'', pc_createdAt = 1000\<rparr>"


definition idleLimiter :: limiter where
  \<comment> \<open>nothing was sent for a long time: \<open>safeSend\<close> need not wait before its first attempt\<close>
  "idleLimiter = \<lparr>globalLastSend = 0, lastGroupMessage = Map.empty, now = 1000000, events = []\<rparr>"

definition tooManyRequests :: "nat option \<Rightarrow> send_error" where
  "tooManyRequests r =
     \<lparr>error_code = Some 429, retry_after = r, message = ''Too Many Requests''\<rparr>"

definition retryAfterZeroThenSent :: "nat \<Rightarrow> string outcome" where
  \<comment> \<open>the first call is rate-limited with a retry-after of 0, the second succeeds\<close>
  "retryAfterZeroThenSent k =
     (if k = 1 then Rejected (tooManyRequests (Some 0)) else Resolved ''sent'')"

definition twiceLimitedThenSent :: "nat \<Rightarrow> string outcome" where
  \<comment> \<open>rate-limited with a retry-after of 7, then rate-limited without one, then sent\<close>
  "twiceLimitedThenSent k =
     (if k = 1 then Rejected (tooManyRequests (Some 7))
      else if k = 2 then Rejected (tooManyRequests None)
      else Resolved ''sent'')"

definition workspaceHost :: host where
  \<comment> \<open>a host with the workspace \<open>/workspace/42\<close>: a file \<open>foo.txt\<close> and a link \<open>link\<close> to
      \<open>/srv/shared/data.txt\<close> in it; outside it that file and the bot's token\<close>
  "workspaceHost =
     \<lparr>processCwd = ''/app'',
      existsSync = (\<lambda>p. p \<in> set [''/workspace/42'', ''/workspace/42/foo.txt'', ''/workspace/42/link'',
                                   ''/srv/shared/data.txt'', ''/run/secrets/telegram_token'']),
      realpathSync = (\<lambda>p. if p = ''/workspace/42/link'' then Some ''/srv/shared/data.txt''
                          else if p \<in> set [''/workspace/42'', ''/workspace/42/foo.txt'',
                                           ''/srv/shared/data.txt'', ''/run/secrets/telegram_token'']
                          then Some p
                          else None),
      lstatIsSymbolicLink = (\<lambda>p. if p = ''/workspace/42/link'' then Some True
                                 else if p \<in> set [''/workspace/42'', ''/workspace/42/foo.txt'',
                                                  ''/srv/shared/data.txt'',
                                                  ''/run/secrets/telegram_token'']
                                 then Some False
                                 else None),
      readFileSync = (\<lambda>p. if p = ''/workspace/42/foo.txt'' then Inr ''hello''
                          else if p = ''/workspace/42/link'' \<or> p = ''/srv/shared/data.txt''
                          then Inr ''shared data''
                          else if p = ''/run/secrets/telegram_token'' then Inr ''4815162342:token''
                          else Inl ''ENOENT: no such file or directory''),
      mkdirSync = (\<lambda>p. None),
      writeFileSync = (\<lambda>p c. None),
      execSync = (\<lambda>c. None)\<rparr>"

definition removedWorkspaceHost :: host where
  \<comment> \<open>the same host after the directory \<open>/workspace/42\<close> was removed\<close>
  "removedWorkspaceHost =
     \<lparr>processCwd = ''/app'',
      existsSync = (\<lambda>p. p \<in> set [''/srv/shared/data.txt'', ''/run/secrets/telegram_token'']),
      realpathSync = (\<lambda>p. if p \<in> set [''/srv/shared/data.txt'', ''/run/secrets/telegram_token'']
                          then Some p else None),
      lstatIsSymbolicLink = (\<lambda>p. if p \<in> set [''/srv/shared/data.txt'',
                                                ''/run/secrets/telegram_token'']
                                 then Some False else None),
      readFileSync = (\<lambda>p. if p = ''/srv/shared/data.txt'' then Inr ''shared data''
                          else if p = ''/run/secrets/telegram_token'' then Inr ''4815162342:token''
                          else Inl ''ENOENT: no such file or directory''),
      mkdirSync = (\<lambda>p. None),
      writeFileSync = (\<lambda>p c. None),
      execSync = (\<lambda>c. None)\<rparr>"

definition linkedDirHost :: host where
  \<comment> \<open>a host with the workspace \<open>/workspace/42\<close> in which \<open>out\<close> is a link to the directory
      \<open>/srv/shared\<close>, which holds the file \<open>old.txt\<close>; every write succeeds\<close>
  "linkedDirHost =
     \<lparr>processCwd = ''/app'',
      existsSync = (\<lambda>p. p \<in> set [''/workspace/42'', ''/workspace/42/out'',
                                   ''/workspace/42/out/old.txt'', ''/srv/shared'',
                                   ''/srv/shared/old.txt'']),
      realpathSync = (\<lambda>p. if p = ''/workspace/42/out'' then Some ''/srv/shared''
                          else if p = ''/workspace/42/out/old.txt'' then Some ''/srv/shared/old.txt''
                          else if p \<in> set [''/workspace/42'', ''/srv/shared'', ''/srv/shared/old.txt'']
                          then Some p
                          else None),
      lstatIsSymbolicLink = (\<lambda>p. if p = ''/workspace/42/out'' then Some True
                                 else if p \<in> set [''/workspace/42'', ''/workspace/42/out/old.txt'',
                                                  ''/srv/shared'', ''/srv/shared/old.txt'']
                                 then Some False
                                 else None),
      readFileSync = (\<lambda>p. if p = ''/workspace/42/out/old.txt'' \<or> p = ''/srv/shared/old.txt''
                          then Inr ''old''
                          else Inl ''ENOENT: no such file or directory''),
      mkdirSync = (\<lambda>p. None),
      writeFileSync = (\<lambda>p c. None),
      execSync = (\<lambda>c. None)\<rparr>"

definition elevenStaleChecks :: "user_call list" where
  \<comment> \<open>the handler is invoked for one message of each of eleven users; each invocation
      makes its check and is suspended at its first \<open>await\<close>, then each resumes and marks\<close>
  "elevenStaleChecks =
     map CanAcceptUser [1, 2, 3, 4, 5, 6, 7, 8, 9, 10, 11]
     @ map MarkUserActive [1, 2, 3, 4, 5, 6, 7, 8, 9, 10, 11]"

section \<open>The command classifier: properties\<close>

lemma checkCommandLoop_first_match:
  "checkCommandLoop es cmd =
     (case filter (\<lambda>e. RegExp_test (pattern e) cmd) es of
        [] \<Rightarrow> \<lparr>dangerous = False, result_reason = None\<rparr>
      | e # rest \<Rightarrow> \<lparr>dangerous = True, result_reason = Some (reason e)\<rparr>)"
  by (induction es) simp_all

lemma checkCommand_by_matchingReasons:
  "checkCommand cmd =
     (case matchingReasons cmd of
        [] \<Rightarrow> \<lparr>dangerous = False, result_reason = None\<rparr>
      | why # rest \<Rightarrow> \<lparr>dangerous = True, result_reason = Some why\<rparr>)"
  by (simp add: checkCommand_def matchingReasons_def checkCommandLoop_first_match split: list.split)

lemma classify_by_matchingReasons:
  "classify cmd = (case matchingReasons cmd of [] \<Rightarrow> Allow | why # rest \<Rightarrow> Dangerous why)"
  by (simp add: classify_def checkCommand_by_matchingReasons split: list.split)

text \<open>The entries of the table that match each command of the scenarios.\<close>

lemma matching_cat_secret: "matchingReasons ''cat /run/secrets/telegram_token'' = []"
  by code_simp

lemma matching_env: "matchingReasons ''env'' = []"
  by code_simp

lemma matching_printenv: "matchingReasons ''printenv'' = []"
  by code_simp

lemma matching_export: "matchingReasons ''export'' = []"
  by code_simp

lemma matching_set: "matchingReasons ''set'' = []"
  by code_simp

lemma matching_curl_proxy: "matchingReasons ''curl http://proxy:3200/health'' = []"
  by code_simp

lemma matching_cat_base64: "matchingReasons ''cat f | base64'' = []"
  by code_simp

lemma matching_ls: "matchingReasons ''ls -la'' = []"
  by code_simp

lemma matching_pwd: "matchingReasons ''pwd'' = []"
  by code_simp

lemma matching_echo: "matchingReasons ''echo hello'' = []"
  by code_simp

lemma matching_python: "matchingReasons ''python3 -c \"print(1+1)\"'' = []"
  by code_simp

lemma matching_curl_google: "matchingReasons ''curl https://google.com'' = []"
  by code_simp

lemma matching_rm_rf:
  "matchingReasons ''rm -rf /tmp/cache''
     = [''Recursive delete from root/home'', ''Force recursive delete'']"
  by code_simp

text \<open>
  Claim C1 says that \<open>checkCommand\<close> returns the Forbidden tag, with a secret-exfiltration
  reason, on \<open>cat /run/secrets/telegram_token\<close>, on a standalone \<open>env\<close>, \<open>printenv\<close>,
  \<open>export\<close> or \<open>set\<close>, on \<open>curl http://proxy:3200/health\<close> and on \<open>cat f | base64\<close>. The
  source's \<open>checkCommand\<close> only walks \<open>DANGEROUS_PATTERNS\<close>, none of whose entries matches
  any of these commands: each of them is classified Allow.
\<close>

theorem exfiltration_commands_classified_allow:
  "map classify
     [''cat /run/secrets/telegram_token'', ''env'', ''printenv'', ''export'', ''set'',
      ''curl http://proxy:3200/health'', ''cat f | base64'']
   = [Allow, Allow, Allow, Allow, Allow, Allow, Allow]"
  by (simp add: classify_by_matchingReasons matching_cat_secret matching_env matching_printenv
      matching_export matching_set matching_curl_proxy matching_cat_base64)

text \<open>
  Claim C3, as stated: on \<open>rm -rf /tmp/cache\<close> the classifier returns Dangerous with the
  reason "Force recursive delete". It does not.
\<close>

theorem rm_rf_tmp_cache_reason_is_not_force_recursive_delete:
  "classify ''rm -rf /tmp/cache'' \<noteq> Dangerous ''Force recursive delete''"
  by (simp add: classify_by_matchingReasons matching_rm_rf)

text \<open>
  Claim C3, amended: on \<open>rm -rf /tmp/cache\<close> the classifier returns Dangerous with the
  reason "Recursive delete from root/home". Two entries match this command, the first
  of the table and the third ("Force recursive delete"), and for every command the
  reason reported is the one of the first matching entry in declared order (Allow when
  no entry matches).
\<close>

theorem rm_rf_tmp_cache_reports_first_matching_entry:
  "classify ''rm -rf /tmp/cache'' = Dangerous ''Recursive delete from root/home''
   \<and> matchingReasons ''rm -rf /tmp/cache''
       = [''Recursive delete from root/home'', ''Force recursive delete'']
   \<and> classify cmd = (case matchingReasons cmd of [] \<Rightarrow> Allow | why # rest \<Rightarrow> Dangerous why)"
  by (simp add: classify_by_matchingReasons matching_rm_rf)

text \<open>
  Claim C9: each of the permitted commands \<open>ls -la\<close>, \<open>pwd\<close>, \<open>echo hello\<close>,
  \<open>python3 -c "print(1+1)"\<close> and \<open>curl https://google.com\<close> is classified Allow, and no
  entry of the pattern table matches any of them.
\<close>

theorem permitted_commands_allowed:
  "map classify
     [''ls -la'', ''pwd'', ''echo hello'', ''python3 -c \"print(1+1)\"'', ''curl https://google.com'']
     = [Allow, Allow, Allow, Allow, Allow]
   \<and> map matchingReasons
     [''ls -la'', ''pwd'', ''echo hello'', ''python3 -c \"print(1+1)\"'', ''curl https://google.com'']
     = [[], [], [], [], []]"
  by (simp add: classify_by_matchingReasons matching_ls matching_pwd matching_echo matching_python
      matching_curl_google)

section \<open>Numbers in template literals\<close>

declare numToString.simps [simp del]

lemma numToString_digit: "n < 10 \<Longrightarrow> numToString n = [digitChar n]"
  by (subst numToString.simps) simp

lemma numToString_more:
  "\<not> n < 10 \<Longrightarrow> numToString n = numToString (n div 10) @ [digitChar (n mod 10)]"
  by (subst numToString.simps) simp

lemma digitChar_values:
  "digitChar 0 = CHR ''0''" "digitChar (Suc 0) = CHR ''1''" "digitChar 2 = CHR ''2''"
  "digitChar 3 = CHR ''3''" "digitChar 4 = CHR ''4''" "digitChar 5 = CHR ''5''"
  "digitChar 6 = CHR ''6''" "digitChar 7 = CHR ''7''" "digitChar 8 = CHR ''8''"
  "digitChar 9 = CHR ''9''"
  by code_simp+

lemma newId_example: "newId 1000 ''k3x9ab'' = ''cmd_1000_k3x9ab''"
  by (simp add: newId_def numToString_digit numToString_more digitChar_values)

section \<open>The pending-command store: properties\<close>

lemma absent_step:
  "pendingCommands st ident = None \<Longrightarrow> \<not> storesId ident e st
     \<Longrightarrow> pendingCommands (approvalStep e st) ident = None"
  by (cases e)
     (auto simp: storePendingCommand_def consumePendingCommand_def cancelPendingCommand_def
        timeoutCallback_def Let_def split: option.splits prod.splits)

lemma absent_run:
  "pendingCommands st ident = None \<Longrightarrow> \<not> reissued ident es st
     \<Longrightarrow> pendingCommands (approvalRun es st) ident = None"
proof (induction es arbitrary: st)
  case Nil
  then show ?case by simp
next
  case (Cons e es)
  from Cons.prems have "pendingCommands (approvalStep e st) ident = None"
    by (simp add: absent_step)
  moreover from Cons.prems have "\<not> reissued ident es (approvalStep e st)"
    by simp
  ultimately show ?case
    using Cons.IH by simp
qed

lemma consume_absent:
  "pendingCommands st ident = None \<Longrightarrow> consumePendingCommand ident st = (None, st)"
  by (simp add: consumePendingCommand_def)

lemma consume_removes:
  "pendingCommands (snd (consumePendingCommand ident st)) ident = None"
  by (simp add: consumePendingCommand_def split: option.splits)

text \<open>
  Claim C5, amended: as long as no later \<open>storePendingCommand\<close> hands out the same id
  again, at most one call of \<open>consumePendingCommand\<close> returns the record stored under an
  id. The call that returns the record removes it from the store, and whatever happens
  afterwards (further consumes, cancels, timeouts, the passing of time, stores that hand
  out other ids) every later \<open>consumePendingCommand\<close> of that id returns nothing and
  changes nothing, as does a consume of any id that is not in the store.
\<close>

theorem consume_returns_record_at_most_once:
  "(consumePendingCommand ident st = (Some cmd, st') \<longrightarrow>
      pendingCommands st' ident = None
      \<and> (\<not> reissued ident es st' \<longrightarrow>
           consumePendingCommand ident (approvalRun es st') = (None, approvalRun es st')))
   \<and> (pendingCommands st ident = None \<longrightarrow> consumePendingCommand ident st = (None, st))"
proof (intro conjI impI)
  assume c: "consumePendingCommand ident st = (Some cmd, st')"
  have "pendingCommands (snd (consumePendingCommand ident st)) ident = None"
    by (rule consume_removes)
  with c show gone: "pendingCommands st' ident = None"
    by simp
  assume "\<not> reissued ident es st'"
  with gone have "pendingCommands (approvalRun es st') ident = None"
    by (rule absent_run)
  then show "consumePendingCommand ident (approvalRun es st') = (None, approvalRun es st')"
    by (rule consume_absent)
next
  assume "pendingCommands st ident = None"
  then show "consumePendingCommand ident st = (None, st)"
    by (rule consume_absent)
qed

lemma storedExample_lookup:
  "pendingCommands storedExample ''cmd_1000_k3x9ab'' =
     Some \<lparr>pc_id = ''cmd_1000_k3x9ab'', pc_sessionId = ''s1'', pc_chatId = 7,
           pc_command = ''rm -rf build'', pc_cwd = ''/workspace/7'',
           pc_reason = ''Force recursive delete'', pc_createdAt = 1000\<rparr>"
  by (simp add: storedExample_def storePendingCommand_def approvalsInit_def newId_example Let_def)

text \<open>
  The record stored in \<^const>\<open>storedExample\<close> is returned by the first consume and by no later
  one; an id that was never stored yields nothing.
\<close>

theorem consume_returns_record_at_most_once_witness:
  "consumePendingCommand ''cmd_1000_k3x9ab'' storedExample
     = (Some storedRecordExample, snd (consumePendingCommand ''cmd_1000_k3x9ab'' storedExample))
   \<and> consumePendingCommand ''cmd_1000_k3x9ab''
       (approvalRun [Consume ''cmd_1000_k3x9ab'', Elapse 10, Cancel ''cmd_1000_k3x9ab'']
          (snd (consumePendingCommand ''cmd_1000_k3x9ab'' storedExample)))
     = (None, approvalRun [Consume ''cmd_1000_k3x9ab'', Elapse 10, Cancel ''cmd_1000_k3x9ab'']
          (snd (consumePendingCommand ''cmd_1000_k3x9ab'' storedExample)))
   \<and> consumePendingCommand ''cmd_1_zzzzzz'' (approvalsInit 1000) = (None, approvalsInit 1000)"
proof -
  let ?st' = "snd (consumePendingCommand ''cmd_1000_k3x9ab'' storedExample)"
  let ?es = "[Consume ''cmd_1000_k3x9ab'', Elapse 10, Cancel ''cmd_1000_k3x9ab'']"
  have first: "consumePendingCommand ''cmd_1000_k3x9ab'' storedExample = (Some storedRecordExample, ?st')"
    by (simp add: consumePendingCommand_def storedExample_lookup storedRecordExample_def)
  have fresh: "\<not> reissued ''cmd_1000_k3x9ab'' ?es ?st'"
    by simp
  have absent: "pendingCommands (approvalsInit 1000) ''cmd_1_zzzzzz'' = None"
    by (simp add: approvalsInit_def)
  from consume_returns_record_at_most_once
         [of "''cmd_1000_k3x9ab''" storedExample storedRecordExample ?st' ?es] first fresh
  have "consumePendingCommand ''cmd_1000_k3x9ab'' (approvalRun ?es ?st') = (None, approvalRun ?es ?st')"
    by blast
  moreover from consume_returns_record_at_most_once
         [of "''cmd_1_zzzzzz''" "approvalsInit 1000"] absent
  have "consumePendingCommand ''cmd_1_zzzzzz'' (approvalsInit 1000) = (None, approvalsInit 1000)"
    by blast
  ultimately show ?thesis
    using first by (intro conjI)
qed

text \<open>
  Claim C5, as stated: after the call that returned the record, every later
  \<open>consumePendingCommand\<close> of the id returns nothing. An id is made of the millisecond
  clock and six characters drawn at random, and \<open>storePendingCommand\<close> does not look
  whether the id is in use or was used before. When a second store in the same
  millisecond draws the same six characters, it hands out the id of
  \<^const>\<open>storedExample\<close> again, after that record was consumed, and a second consume of
  the id returns a record too.
\<close>

theorem reissued_id_is_consumed_twice:
  "fst (consumePendingCommand ''cmd_1000_k3x9ab'' storedExample) = Some storedRecordExample
   \<and> fst (storePendingCommand ''k3x9ab'' ''s1'' 7 ''rm -rf build'' ''/workspace/7''
            ''Force recursive delete'' (snd (consumePendingCommand ''cmd_1000_k3x9ab'' storedExample)))
       = ''cmd_1000_k3x9ab''
   \<and> reissued ''cmd_1000_k3x9ab''
         [Store ''k3x9ab'' ''s1'' 7 ''rm -rf build'' ''/workspace/7'' ''Force recursive delete'']
         (snd (consumePendingCommand ''cmd_1000_k3x9ab'' storedExample))
   \<and> fst (consumePendingCommand ''cmd_1000_k3x9ab''
            (approvalRun
               [Store ''k3x9ab'' ''s1'' 7 ''rm -rf build'' ''/workspace/7'' ''Force recursive delete'']
               (snd (consumePendingCommand ''cmd_1000_k3x9ab'' storedExample))))
       = Some storedRecordExample"
  by (simp add: consumePendingCommand_def storedExample_lookup storedRecordExample_def
      storePendingCommand_def storedExample_def approvalsInit_def newId_example Let_def)

subsection \<open>Expiry\<close>












section \<open>The active-user set: properties\<close>

text \<open>
  What the check is meant to guarantee: a \<open>markUserActive\<close> made in the very state in
  which \<open>canAcceptUser\<close> answered true keeps the set within the bound.
\<close>

lemma mark_in_the_checked_state_keeps_bound:
  assumes "canAcceptUser userId st"
    and "int (length (activeUsers st)) \<le> maxConcurrentUsers st"
  shows "int (length (activeUsers (markUserActive userId st))) \<le> maxConcurrentUsers st"
proof (cases "userId \<in> set (activeUsers st)")
  case True
  with assms show ?thesis
    by (simp add: markUserActive_def)
next
  case False
  with assms show ?thesis
    by (simp add: canAcceptUser_def markUserActive_def)
qed

text \<open>
  Claim C6: the active-user set never holds more than \<open>maxConcurrentUsers\<close> users, given
  that the caller calls \<open>markUserActive\<close> only after \<open>canAcceptUser\<close> returned true. The
  handler does so, and the bound is exceeded: the answer of \<open>canAcceptUser\<close> is about the
  set at the time of the check, the handler awaits \<open>setMessageReaction\<close> between its check
  and its mark, and \<open>markUserActive\<close> adds the user whatever the size of the set. Messages
  of eleven users arrive together, the bound being the configured 10 and the set empty:
  each of the eleven invocations of the handler is answered true and suspended at its
  \<open>await\<close>, and then each resumes and marks its user active. Every mark follows a
  successful check of the same user, and the set ends with eleven users.
\<close>

theorem eleven_stale_checks_exceed_the_bound:
  "followsProtocol [] elevenStaleChecks usersInit
   \<and> activeUsers (callRun elevenStaleChecks usersInit) = [1, 2, 3, 4, 5, 6, 7, 8, 9, 10, 11]
   \<and> maxConcurrentUsers (callRun elevenStaleChecks usersInit) = 10
   \<and> \<not> int (length (activeUsers (callRun elevenStaleChecks usersInit)))
         \<le> maxConcurrentUsers (callRun elevenStaleChecks usersInit)"
  by (simp add: elevenStaleChecks_def usersInit_def CONFIG_users_maxConcurrent_def
      canAcceptUser_def markUserActive_def)

section \<open>\<open>safeSend\<close>: properties\<close>

declare retryLoop.simps [simp del]


lemma retryLoop_done: "maxR < attempt \<Longrightarrow> retryLoop maxR attempt fn st = (None, st)"
  by (subst retryLoop.simps) simp

lemma retryLoop_settled:
  assumes "attempt \<le> maxR" and "\<not> rateLimited (fn attempt)"
  shows "retryLoop maxR attempt fn st
           = (settle (fn attempt), st\<lparr>events := events st @ [Attempt attempt]\<rparr>)"
proof (cases "fn attempt")
  case (Resolved v)
  with assms show ?thesis
    by (subst retryLoop.simps) (simp add: settle_def)
next
  case (Rejected e)
  with assms show ?thesis
    by (subst retryLoop.simps) (simp add: settle_def rateLimited_def)
qed

lemma retryLoop_limited_last:
  assumes "rateLimited (fn maxR)"
  shows "retryLoop maxR maxR fn st = (None, st\<lparr>events := events st @ [Attempt maxR]\<rparr>)"
proof (cases "fn maxR")
  case (Resolved v)
  with assms show ?thesis
    by (simp add: rateLimited_def)
next
  case (Rejected e)
  with assms show ?thesis
    by (subst retryLoop.simps) (simp add: rateLimited_def retryLoop_done)
qed

lemma retryLoop_limited_more:
  assumes "attempt < maxR" and "rateLimited (fn attempt)"
  shows "\<exists>st'. retryLoop maxR attempt fn st = retryLoop maxR (Suc attempt) fn st'
            \<and> events st' = events st @ [Attempt attempt, Sleep (backoff (fn attempt))]"
proof (cases "fn attempt")
  case (Resolved v)
  with assms show ?thesis
    by (simp add: rateLimited_def)
next
  case (Rejected e)
  let ?st2 = "sleep (backoff (fn attempt)) (st\<lparr>events := events st @ [Attempt attempt]\<rparr>)"
  from Rejected assms
  have "retryLoop maxR attempt fn st
          = retryLoop maxR (Suc attempt) fn (?st2\<lparr>globalLastSend := now ?st2\<rparr>)"
    by (subst retryLoop.simps) (simp add: rateLimited_def backoff_def Let_def)
  moreover have "events (?st2\<lparr>globalLastSend := now ?st2\<rparr>)
                   = events st @ [Attempt attempt, Sleep (backoff (fn attempt))]"
    by (simp add: sleep_def)
  ultimately show ?thesis
    by blast
qed

lemma retryLoop_until_settled:
  "(\<And>j. a \<le> j \<Longrightarrow> j < a + n \<Longrightarrow> rateLimited (fn j)) \<Longrightarrow> a + n \<le> maxR
     \<Longrightarrow> \<not> rateLimited (fn (a + n))
     \<Longrightarrow> fst (retryLoop maxR a fn st) = settle (fn (a + n))
         \<and> events (snd (retryLoop maxR a fn st))
             = events st @ retryEvents n a fn @ [Attempt (a + n)]"
proof (induction n arbitrary: a st)
  case 0
  then show ?case by (simp add: retryLoop_settled)
next
  case (Suc n)
  from Suc.prems have "a < maxR" and "rateLimited (fn a)" by simp_all
  then obtain st' where step: "retryLoop maxR a fn st = retryLoop maxR (Suc a) fn st'"
    and ev: "events st' = events st @ [Attempt a, Sleep (backoff (fn a))]"
    using retryLoop_limited_more by blast
  have "fst (retryLoop maxR (Suc a) fn st') = settle (fn (Suc a + n))
        \<and> events (snd (retryLoop maxR (Suc a) fn st'))
            = events st' @ retryEvents n (Suc a) fn @ [Attempt (Suc a + n)]"
    using Suc.prems by (intro Suc.IH) simp_all
  with step ev show ?case by simp
qed

lemma retryLoop_exhausted:
  "(\<And>j. a \<le> j \<Longrightarrow> j \<le> a + n \<Longrightarrow> rateLimited (fn j)) \<Longrightarrow> a + n = maxR
     \<Longrightarrow> fst (retryLoop maxR a fn st) = None
         \<and> events (snd (retryLoop maxR a fn st))
             = events st @ retryEvents n a fn @ [Attempt maxR]"
proof (induction n arbitrary: a st)
  case 0
  then show ?case by (simp add: retryLoop_limited_last)
next
  case (Suc n)
  from Suc.prems have "a < maxR" and "rateLimited (fn a)" by simp_all
  then obtain st' where step: "retryLoop maxR a fn st = retryLoop maxR (Suc a) fn st'"
    and ev: "events st' = events st @ [Attempt a, Sleep (backoff (fn a))]"
    using retryLoop_limited_more by blast
  have "fst (retryLoop maxR (Suc a) fn st') = None
        \<and> events (snd (retryLoop maxR (Suc a) fn st'))
            = events st' @ retryEvents n (Suc a) fn @ [Attempt maxR]"
    using Suc.prems by (intro Suc.IH) simp_all
  with step ev show ?case by simp
qed

lemma attemptsMade_append: "attemptsMade (xs @ ys) = attemptsMade xs @ attemptsMade ys"
  by (simp add: attemptsMade_def)

lemma retryLoop_attempts:
  "length (attemptsMade (events (snd (retryLoop maxR a fn st))))
     \<le> length (attemptsMade (events st)) + (Suc maxR - a)"
proof (induction "Suc maxR - a" arbitrary: a st)
  case 0
  then have "maxR < a" by simp
  then show ?case by (simp add: retryLoop_done)
next
  case (Suc m)
  then have le: "a \<le> maxR" by simp
  show ?case
  proof (cases "rateLimited (fn a)")
    case False
    with le show ?thesis
      by (simp add: retryLoop_settled attemptsMade_append) (simp add: attemptsMade_def)
  next
    case True
    show ?thesis
    proof (cases "a = maxR")
      case True
      with \<open>rateLimited (fn a)\<close> show ?thesis
        by (simp add: retryLoop_limited_last attemptsMade_append) (simp add: attemptsMade_def)
    next
      case False
      with le have lt: "a < maxR" by simp
      then obtain st' where step: "retryLoop maxR a fn st = retryLoop maxR (Suc a) fn st'"
        and ev: "events st' = events st @ [Attempt a, Sleep (backoff (fn a))]"
        using retryLoop_limited_more True by blast
      from Suc.hyps(2) have m: "m = Suc maxR - Suc a" by simp
      have "length (attemptsMade (events (snd (retryLoop maxR (Suc a) fn st'))))
              \<le> length (attemptsMade (events st')) + (Suc maxR - Suc a)"
        by (rule Suc.hyps(1) [OF m])
      moreover have "length (attemptsMade (events st')) = Suc (length (attemptsMade (events st)))"
        by (simp add: ev attemptsMade_append) (simp add: attemptsMade_def)
      ultimately show ?thesis
        using step lt by simp
    qed
  qed
qed

lemma backoff_value:
  "backoff (Rejected e) =
     (case retry_after e of None \<Rightarrow> 35000 | Some r \<Rightarrow> if r = 0 then 35000 else (int r + 5) * 1000)"
  by (simp add: backoff_def orDefault_def CONFIG_rateLimit_def split: option.splits)

text \<open>
  Claim C8, amended. \<open>safeSend\<close> calls the wrapped function at most \<open>maxRetries\<close> times
  (3 by default). Let attempt \<open>k\<close> be the first that is not rate-limited, or the last
  allowed attempt when all are rate-limited. Then \<open>safeSend\<close> makes exactly the attempts
  \<open>1, ..., k\<close>, and after each rate-limited attempt before the \<open>k\<close>-th it sleeps, before the
  next attempt, for the delay computed from that error: \<open>R + 5\<close> seconds when the error
  carries a retry-after value \<open>R\<close> other than 0, and 35 seconds when the value is 0 or
  absent. It returns the provider's response if attempt \<open>k\<close> succeeds, \<open>null\<close> at once if
  attempt \<open>k\<close> fails with any other error, and \<open>null\<close> if all \<open>maxRetries\<close> attempts were
  rate-limited.
\<close>

theorem safeSend_retry_policy:
  fixes fn :: "nat \<Rightarrow> 'a outcome"
  assumes limited: "\<forall>j. 1 \<le> j \<and> j < k \<longrightarrow> rateLimited (fn j)"
      and k: "1 \<le> k" "k \<le> maxR"
  shows "length (attemptsMade (events (snd (safeSend chatId fn maxR st))))
           \<le> length (attemptsMade (events (awaitIntervals chatId st))) + maxR
         \<and> (\<not> rateLimited (fn k) \<or> k = maxR \<longrightarrow>
              events (snd (safeSend chatId fn maxR st))
                = events (awaitIntervals chatId st) @ retryEvents (k - 1) 1 fn @ [Attempt k])
         \<and> (fn k = Resolved v \<longrightarrow> fst (safeSend chatId fn maxR st) = Some v)
         \<and> (fn k = Rejected e \<and> error_code e \<noteq> Some 429 \<longrightarrow>
              fst (safeSend chatId fn maxR st) = None)
         \<and> (rateLimited (fn k) \<and> k = maxR \<longrightarrow> fst (safeSend chatId fn maxR st) = None)
         \<and> (retry_after e' = Some r \<and> r \<noteq> 0 \<longrightarrow>
              backoff (Rejected e' :: 'a outcome) = (int r + 5) * 1000)
         \<and> (retry_after e' = None \<or> retry_after e' = Some 0 \<longrightarrow>
              backoff (Rejected e' :: 'a outcome) = 35000)"
proof -
  let ?st0 = "awaitIntervals chatId st"
  have bound: "length (attemptsMade (events (snd (safeSend chatId fn maxR st))))
                 \<le> length (attemptsMade (events ?st0)) + maxR"
    using retryLoop_attempts [of maxR 1 fn ?st0] by (simp add: safeSend_def)
  have before: "\<And>j. 1 \<le> j \<Longrightarrow> j < 1 + (k - 1) \<Longrightarrow> rateLimited (fn j)"
    using limited by simp
  have k1: "1 + (k - 1) = k"
    using k by simp
  have settled: "fst (safeSend chatId fn maxR st) = settle (fn k)
                 \<and> events (snd (safeSend chatId fn maxR st))
                     = events ?st0 @ retryEvents (k - 1) 1 fn @ [Attempt k]"
    if "\<not> rateLimited (fn k)"
    using retryLoop_until_settled [of 1 "k - 1" fn maxR ?st0] before k that
    by (simp add: safeSend_def k1)
  have exhausted: "fst (safeSend chatId fn maxR st) = None
                   \<and> events (snd (safeSend chatId fn maxR st))
                       = events ?st0 @ retryEvents (k - 1) 1 fn @ [Attempt k]"
    if "rateLimited (fn k)" and "k = maxR"
  proof -
    have "\<And>j. 1 \<le> j \<Longrightarrow> j \<le> 1 + (k - 1) \<Longrightarrow> rateLimited (fn j)"
      using limited that(1) k1 by (metis le_neq_implies_less)
    then show ?thesis
      using retryLoop_exhausted [of 1 "k - 1" fn maxR ?st0] that(2) k1
      by (simp add: safeSend_def)
  qed
  have ev: "events (snd (safeSend chatId fn maxR st))
              = events ?st0 @ retryEvents (k - 1) 1 fn @ [Attempt k]"
    if "\<not> rateLimited (fn k) \<or> k = maxR"
    using that settled exhausted by blast
  have ok: "fst (safeSend chatId fn maxR st) = Some v" if "fn k = Resolved v"
    using settled that by (simp add: rateLimited_def settle_def)
  have other: "fst (safeSend chatId fn maxR st) = None"
    if "fn k = Rejected e \<and> error_code e \<noteq> Some 429"
    using settled that by (simp add: rateLimited_def settle_def)
  have b1: "backoff (Rejected e' :: 'a outcome) = (int r + 5) * 1000" if "retry_after e' = Some r \<and> r \<noteq> 0"
    using that by (simp add: backoff_value)
  have b2: "backoff (Rejected e' :: 'a outcome) = 35000" if "retry_after e' = None \<or> retry_after e' = Some 0"
    using that by (auto simp: backoff_value)
  from bound ev ok other exhausted b1 b2 show ?thesis
    by blast
qed

text \<open>
  Claim C8, as stated: on a rate-limit error carrying a retry-after value \<open>R\<close> the sleep is
  \<open>R + 5\<close> seconds. For \<open>R = 0\<close> the source's \<open>retry_after || 30\<close> takes the default, and
  the sleep is 35 seconds, not 5.
\<close>

theorem zero_retry_after_waits_35_seconds:
  "safeSend 42 retryAfterZeroThenSent 3 idleLimiter
     = (Some ''sent'',
        idleLimiter\<lparr>globalLastSend := 1035000, now := 1035000,
                      events := [Attempt 1, Sleep 35000, Attempt 2]\<rparr>)
   \<and> retryAfterZeroThenSent 1 = Rejected (tooManyRequests (Some 0))
   \<and> Sleep 35000 \<noteq> Sleep ((0 + 5) * 1000)"
  by (simp add: safeSend_def awaitIntervals_def idleLimiter_def CONFIG_rateLimit_def Let_def
      retryLoop.simps [of 3] retryAfterZeroThenSent_def tooManyRequests_def orDefault_def sleep_def)

text \<open>
  The policy at a concrete send: rate-limited with a retry-after of 7, rate-limited again
  without one, then sent.
\<close>

theorem safeSend_retry_policy_witness:
  "fst (safeSend 42 twiceLimitedThenSent 3 idleLimiter) = Some ''sent''
   \<and> events (snd (safeSend 42 twiceLimitedThenSent 3 idleLimiter))
       = [Attempt 1, Sleep 12000, Attempt 2, Sleep 35000, Attempt 3]
   \<and> backoff (Rejected (tooManyRequests (Some 7)) :: string outcome) = 12000"
proof -
  have limited: "\<forall>j. 1 \<le> j \<and> j < 3 \<longrightarrow> rateLimited (twiceLimitedThenSent j)"
    by (simp add: twiceLimitedThenSent_def rateLimited_def tooManyRequests_def)
  have k: "(1::nat) \<le> 3" "(3::nat) \<le> 3"
    by simp_all
  have third: "twiceLimitedThenSent 3 = Resolved ''sent''"
    by (simp add: twiceLimitedThenSent_def)
  have settled: "\<not> rateLimited (twiceLimitedThenSent 3) \<or> (3::nat) = 3"
    by simp
  have first: "retry_after (tooManyRequests (Some 7)) = Some 7 \<and> (7::nat) \<noteq> 0"
    by (simp add: tooManyRequests_def)
  note policy = safeSend_retry_policy
    [OF limited k, of 42 idleLimiter "''sent''" _ "tooManyRequests (Some 7)" 7]
  from policy third have res: "fst (safeSend 42 twiceLimitedThenSent 3 idleLimiter) = Some ''sent''"
    by blast
  from policy settled
  have "events (snd (safeSend 42 twiceLimitedThenSent 3 idleLimiter))
          = events (awaitIntervals 42 idleLimiter) @ retryEvents (3 - 1) 1 twiceLimitedThenSent
            @ [Attempt 3]"
    by blast
  moreover have "events (awaitIntervals 42 idleLimiter) = []"
    by (simp add: awaitIntervals_def idleLimiter_def CONFIG_rateLimit_def Let_def)
  moreover have "retryEvents (3 - 1) 1 twiceLimitedThenSent
                   = [Attempt 1, Sleep 12000, Attempt 2, Sleep 35000]"
    by (simp add: numeral_2_eq_2 twiceLimitedThenSent_def backoff_value tooManyRequests_def)
  ultimately have evs: "events (snd (safeSend 42 twiceLimitedThenSent 3 idleLimiter))
                          = [Attempt 1, Sleep 12000, Attempt 2, Sleep 35000, Attempt 3]"
    by simp
  from policy first
  have "backoff (Rejected (tooManyRequests (Some 7)) :: string outcome) = (int 7 + 5) * 1000"
    by blast
  then have wait: "backoff (Rejected (tooManyRequests (Some 7)) :: string outcome) = 12000"
    by simp
  from res evs wait show ?thesis
    by (intro conjI)
qed

section \<open>File tools: properties\<close>

lemma sensitive_data_txt: "\<not> isSensitiveFile ''/srv/shared/data.txt''"
  by code_simp

lemma sensitive_env: "isSensitiveFile ''/workspace/42/.env''"
  by code_simp

lemma sensitive_link: "\<not> isSensitiveFile ''/workspace/42/link''"
  by code_simp

lemma resolve_dotdot: "resolve pc ''/workspace/42/../43/x'' = ''/workspace/43/x''"
  by (simp add: resolve_def normalizeString_def normStep_def)

lemma resolve_ws: "resolve pc ''/workspace/42'' = ''/workspace/42''"
  by (simp add: resolve_def normalizeString_def normStep_def)

lemma join_rel: "join ''/workspace/42'' ''../43/x'' = ''/workspace/43/x''"
  by (simp add: join_def normalize_def normalizeString_def normStep_def)

lemma resolve_43: "resolve pc ''/workspace/43/x'' = ''/workspace/43/x''"
  by (simp add: resolve_def normalizeString_def normStep_def)

text \<open>
  What \<open>path.resolve\<close> returns, when the path or the process directory is absolute, is
  canonical: \<open>/\<close> followed by plain segments joined by \<open>/\<close>.
\<close>

lemma splitOn_no_separator: "s \<in> set (splitOn c p) \<Longrightarrow> c \<notin> set s"
proof (induction p arbitrary: s)
  case Nil
  then show ?case by simp
next
  case (Cons a p)
  show ?case
  proof (cases "a = c")
    case True
    with Cons show ?thesis by auto
  next
    case False
    with Cons show ?thesis
      by (cases "splitOn c p") auto
  qed
qed

lemma normStep_plain:
  assumes "list_all plainSegment acc" and "CHR ''/'' \<notin> set seg"
  shows "list_all plainSegment (normStep False acc seg)"
proof -
  have "list_all plainSegment (butlast acc)"
    using assms(1) by (auto simp: list_all_iff dest: in_set_butlastD)
  with assms show ?thesis
    by (auto simp: normStep_def plainSegment_def list_all_iff)
qed

lemma foldl_normStep_plain:
  "list_all plainSegment acc \<Longrightarrow> (\<And>x. x \<in> set xs \<Longrightarrow> CHR ''/'' \<notin> set x)
     \<Longrightarrow> list_all plainSegment (foldl (normStep False) acc xs)"
proof (induction xs arbitrary: acc)
  case Nil
  then show ?case by simp
next
  case (Cons x xs)
  from Cons.prems have "list_all plainSegment (normStep False acc x)"
    by (intro normStep_plain) simp_all
  with Cons.prems(2) show ?case
    by (simp add: Cons.IH)
qed

lemma resolve_canonical:
  assumes "startsWith p ''/'' \<or> startsWith pc ''/''"
  shows "\<exists>segs. resolve pc p = ''/'' @ joinWith ''/'' segs \<and> list_all plainSegment segs"
proof -
  let ?own = "if p = [] then [] else p @ ''/''"
  let ?rp = "if startsWith p ''/'' then ?own else pc @ ''/'' @ ?own"
  let ?segs = "foldl (normStep False) [] (splitOn CHR ''/'' ?rp)"
  have "list_all plainSegment ?segs"
    by (rule foldl_normStep_plain) (simp_all add: splitOn_no_separator)
  moreover from assms have "resolve pc p = ''/'' @ joinWith ''/'' ?segs"
    by (simp add: resolve_def normalizeString_def Let_def)
  ultimately show ?thesis
    by blast
qed

subsection \<open>\<open>write_file\<close>\<close>

text \<open>
  The first guard of \<open>executeWrite\<close> compares what \<open>path.resolve\<close> returns for the full
  path and for the workspace: \<open>.\<close> and \<open>..\<close> are worked off, links are not looked at. When
  that form of the path is neither the resolved workspace nor starts with the resolved
  workspace followed by \<open>/\<close>, the write is blocked before anything is asked of the host; so
  \<open>/workspace/42/../43/x\<close> under the workspace \<open>/workspace/42\<close> is blocked on every host.
\<close>

lemma executeWrite_lexical_guard:
  "(\<not> startsWith (resolve (processCwd h) (fullPathOf cwd p)) (resolve (processCwd h) cwd @ ''/'')
      \<and> resolve (processCwd h) (fullPathOf cwd p) \<noteq> resolve (processCwd h) cwd
    \<longrightarrow> executeWrite h p content cwd = (failed Blocked_outside_workspace, []))
   \<and> executeWrite h ''/workspace/42/../43/x'' content ''/workspace/42''
       = (failed Blocked_outside_workspace, [])"
proof
  show "\<not> startsWith (resolve (processCwd h) (fullPathOf cwd p)) (resolve (processCwd h) cwd @ ''/'')
          \<and> resolve (processCwd h) (fullPathOf cwd p) \<noteq> resolve (processCwd h) cwd
        \<longrightarrow> executeWrite h p content cwd = (failed Blocked_outside_workspace, [])"
    by (simp add: executeWrite_def Let_def)
  show "executeWrite h ''/workspace/42/../43/x'' content ''/workspace/42''
          = (failed Blocked_outside_workspace, [])"
    by (simp add: executeWrite_def fullPathOf_def resolve_dotdot resolve_ws Let_def)
qed

lemma executeWrite_blocks_relative_dotdot:
  "executeWrite workspaceHost ''../43/x'' ''data'' ''/workspace/42''
     = (failed Blocked_outside_workspace, [])"
proof -
  have full: "fullPathOf ''/workspace/42'' ''../43/x'' = ''/workspace/43/x''"
    by (simp add: fullPathOf_def join_rel)
  have outside:
    "\<not> startsWith (resolve (processCwd workspaceHost) (fullPathOf ''/workspace/42'' ''../43/x''))
          (resolve (processCwd workspaceHost) ''/workspace/42'' @ ''/'')
     \<and> resolve (processCwd workspaceHost) (fullPathOf ''/workspace/42'' ''../43/x'')
         \<noteq> resolve (processCwd workspaceHost) ''/workspace/42''"
    by (simp add: full resolve_43 resolve_ws)
  from executeWrite_lexical_guard
         [of workspaceHost "''/workspace/42''" "''../43/x''" "''data''"] outside
  show ?thesis
    by blast
qed

lemma fullPath_new: "fullPathOf ''/workspace/42'' ''out/new.txt'' = ''/workspace/42/out/new.txt''"
  by (simp add: fullPathOf_def join_def normalize_def normalizeString_def normStep_def)

lemma fullPath_old: "fullPathOf ''/workspace/42'' ''out/old.txt'' = ''/workspace/42/out/old.txt''"
  by (simp add: fullPathOf_def join_def normalize_def normalizeString_def normStep_def)

lemma resolve_new: "resolve pc ''/workspace/42/out/new.txt'' = ''/workspace/42/out/new.txt''"
  by (simp add: resolve_def normalizeString_def normStep_def)

lemma resolve_old: "resolve pc ''/workspace/42/out/old.txt'' = ''/workspace/42/out/old.txt''"
  by (simp add: resolve_def normalizeString_def normStep_def)

lemma sensitive_new: "\<not> isSensitiveFile ''/workspace/42/out/new.txt''"
  by code_simp

lemma sensitive_old: "\<not> isSensitiveFile ''/workspace/42/out/old.txt''"
  by code_simp

lemma dirname_new: "dirname ''/workspace/42/out/new.txt'' = ''/workspace/42/out''"
  by code_simp

lemma written_4: "numToString (Suc (Suc (Suc (Suc 0)))) = ''4''"
proof -
  have "numToString 4 = ''4''"
    by (simp add: numToString_digit digitChar_values)
  then show ?thesis
    by (simp add: eval_nat_numeral)
qed

lemma link_command_allowed: "classify ''ln -s /srv/shared out'' = Allow"
proof -
  have "matchingReasons ''ln -s /srv/shared out'' = []"
    by code_simp
  then show ?thesis
    by (simp add: classify_by_matchingReasons)
qed

text \<open>
  Claim C7: \<open>executeWrite\<close> returns a block and writes nothing for every path whose
  canonical form lies outside the workspace. It does not when the path leads through a
  link and the file does not exist yet. In the workspace \<open>/workspace/42\<close> the entry \<open>out\<close> is
  a link to the directory \<open>/srv/shared\<close> (the command \<open>ln -s /srv/shared out\<close> that makes
  it is classified Allow). The path \<open>out/new.txt\<close> passes the guard on the resolved path,
  which does not look at links; \<open>isSymlinkEscape\<close> answers "no escape" because the file
  does not exist yet; and \<open>writeFileSync\<close> is called on \<open>/workspace/42/out/new.txt\<close>, a file
  in the directory whose canonical form is \<open>/srv/shared\<close>, outside the workspace. The tool
  reports success. A file that already exists behind the same link, \<open>out/old.txt\<close>, is
  blocked as an escape.
\<close>

theorem executeWrite_writes_outside_through_directory_link:
  "lstatIsSymbolicLink linkedDirHost ''/workspace/42/out'' = Some True
   \<and> realpathSync linkedDirHost ''/workspace/42'' = Some ''/workspace/42''
   \<and> realpathSync linkedDirHost (dirname (fullPathOf ''/workspace/42'' ''out/new.txt''))
       = Some ''/srv/shared''
   \<and> \<not> startsWith ''/srv/shared'' (''/workspace/42'' @ ''/'')
   \<and> executeWrite linkedDirHost ''out/new.txt'' ''data'' ''/workspace/42''
       = (succeeded ''Written 4 bytes to out/new.txt'',
          [WriteFile ''/workspace/42/out/new.txt'' ''data''])
   \<and> executeWrite linkedDirHost ''out/old.txt'' ''data'' ''/workspace/42''
       = (failed (Blocked_escape (Outside_workspace ''/srv/shared/old.txt'')), [])
   \<and> classify ''ln -s /srv/shared out'' = Allow"
proof (intro conjI)
  show "executeWrite linkedDirHost ''out/new.txt'' ''data'' ''/workspace/42''
          = (succeeded ''Written 4 bytes to out/new.txt'',
             [WriteFile ''/workspace/42/out/new.txt'' ''data''])"
    by (simp add: executeWrite_def fullPath_new resolve_new resolve_ws sensitive_new
        isSymlinkEscape_def writeTo_def dirname_new written_4 linkedDirHost_def Let_def)
  show "executeWrite linkedDirHost ''out/old.txt'' ''data'' ''/workspace/42''
          = (failed (Blocked_escape (Outside_workspace ''/srv/shared/old.txt'')), [])"
    by (simp add: executeWrite_def fullPath_old resolve_old resolve_ws sensitive_old
        isSymlinkEscape_def linkedDirHost_def Let_def)
  show "classify ''ln -s /srv/shared out'' = Allow"
    by (rule link_command_allowed)
qed (simp_all add: fullPath_new dirname_new linkedDirHost_def)

subsection \<open>\<open>read_file\<close>\<close>

text \<open>
  What \<open>executeRead\<close> does block, with a security block (\<open>success = false\<close>, no output, a
  \<open>BLOCKED\<close> error) and without reading a file: every path whose full path names a
  sensitive file (its lower-cased base name is on the list \<open>SENSITIVE_FILES\<close>, or the
  lower-cased full path matches one of \<open>SENSITIVE_PATTERNS\<close> or contains \<open>/.ssh/\<close>), and
  every existing path for which both \<open>realpathSync\<close> calls of \<open>isSymlinkEscape\<close> return
  and the real path lies outside the real workspace.
\<close>

lemma executeRead_blocks_sensitive_and_resolved_outside:
  assumes "toLowerCase (basename (fullPathOf cwd p)) \<in> set (map toLowerCase SENSITIVE_FILES)
           \<or> list_ex (\<lambda>r. RegExp_test r (toLowerCase (fullPathOf cwd p))) SENSITIVE_PATTERNS
           \<or> includesStr (toLowerCase (fullPathOf cwd p)) ''/.ssh/''
           \<or> (existsSync h (fullPathOf cwd p)
               \<and> realpathSync h (fullPathOf cwd p) = Some realPath
               \<and> realpathSync h cwd = Some realWorkspace
               \<and> \<not> startsWith realPath (realWorkspace @ ''/'') \<and> realPath \<noteq> realWorkspace)"
  shows "executeRead h p offset limit cwd
           = (failed (if isSensitiveFile (fullPathOf cwd p)
                      then Blocked_sensitive_read (basename (fullPathOf cwd p))
                      else Blocked_escape (Outside_workspace realPath)), [])
         \<and> (\<exists>e. executeRead h p offset limit cwd
                    = (\<lparr>success = False, r_output = None, r_error = Some e\<rparr>, [])
                  \<and> isBlock e)"
proof (cases "isSensitiveFile (fullPathOf cwd p)")
  case True
  then show ?thesis
    by (simp add: executeRead_def Let_def failed_def)
next
  case False
  with assms have out: "existsSync h (fullPathOf cwd p)"
    "realpathSync h (fullPathOf cwd p) = Some realPath"
    "realpathSync h cwd = Some realWorkspace"
    "\<not> startsWith realPath (realWorkspace @ ''/'')" "realPath \<noteq> realWorkspace"
    by (auto simp: isSensitiveFile_def Let_def list_ex_iff split: if_splits)
  then have "isSymlinkEscape h (fullPathOf cwd p) cwd = Some (Outside_workspace realPath)"
    by (simp add: isSymlinkEscape_def)
  with False show ?thesis
    by (simp add: executeRead_def Let_def failed_def)
qed

lemma sensitive_token: "\<not> isSensitiveFile ''/run/secrets/telegram_token''"
  by code_simp

lemma remove_command_allowed: "classify ''cd .. && rm -r 42'' = Allow"
proof -
  have "matchingReasons ''cd .. && rm -r 42'' = []"
    by code_simp
  then show ?thesis
    by (simp add: classify_by_matchingReasons)
qed

text \<open>
  Claim C2: \<open>executeRead\<close> returns a block, and never file contents, for every path whose
  canonical form lies outside the workspace. It does while the workspace exists: the
  read of \<open>/run/secrets/telegram_token\<close> under the workspace \<open>/workspace/42\<close> is blocked as
  an escape. After the directory \<open>/workspace/42\<close> was removed (the command
  \<open>cd .. && rm -r 42\<close> is classified Allow), \<open>realpathSync\<close> of the workspace throws inside
  \<open>isSymlinkEscape\<close>, whose \<open>catch\<close>, written for a broken link, answers "no escape"; the
  same read then returns the contents of the file.
\<close>

theorem executeRead_returns_secret_when_workspace_removed:
  "executeRead workspaceHost ''/run/secrets/telegram_token'' None None ''/workspace/42''
     = (failed (Blocked_escape (Outside_workspace ''/run/secrets/telegram_token'')), [])
   \<and> existsSync removedWorkspaceHost ''/run/secrets/telegram_token''
   \<and> realpathSync removedWorkspaceHost ''/run/secrets/telegram_token''
       = Some ''/run/secrets/telegram_token''
   \<and> realpathSync removedWorkspaceHost ''/workspace/42'' = None
   \<and> \<not> startsWith ''/run/secrets/telegram_token'' (''/workspace/42'' @ ''/'')
   \<and> executeRead removedWorkspaceHost ''/run/secrets/telegram_token'' None None ''/workspace/42''
       = (succeeded ''4815162342:token'', [ReadFile ''/run/secrets/telegram_token''])
   \<and> classify ''cd .. && rm -r 42'' = Allow"
proof (intro conjI)
  show "executeRead workspaceHost ''/run/secrets/telegram_token'' None None ''/workspace/42''
          = (failed (Blocked_escape (Outside_workspace ''/run/secrets/telegram_token'')), [])"
    by (simp add: executeRead_def fullPathOf_def sensitive_token isSymlinkEscape_def
        workspaceHost_def Let_def)
  show "executeRead removedWorkspaceHost ''/run/secrets/telegram_token'' None None ''/workspace/42''
          = (succeeded ''4815162342:token'', [ReadFile ''/run/secrets/telegram_token''])"
    by (simp add: executeRead_def fullPathOf_def sensitive_token isSymlinkEscape_def
        removedWorkspaceHost_def selectLines_def truncateContent_def Let_def)
  show "classify ''cd .. && rm -r 42'' = Allow"
    by (rule remove_command_allowed)
qed (simp_all add: removedWorkspaceHost_def)

lemma fullPath_link: "fullPathOf ''/workspace/42'' ''link'' = ''/workspace/42/link''"
  by (simp add: fullPathOf_def join_def normalize_def normalizeString_def normStep_def)

lemma fullPath_env: "fullPathOf ''/workspace/42'' ''.env'' = ''/workspace/42/.env''"
  by (simp add: fullPathOf_def join_def normalize_def normalizeString_def normStep_def)

lemma env_in_list:
  "toLowerCase (basename ''/workspace/42/.env'') \<in> set (map toLowerCase SENSITIVE_FILES)"
  by code_simp

lemma basename_env: "basename ''/workspace/42/.env'' = ''.env''"
  by (simp add: basename_def)

text \<open>
  On a host where the workspace exists: a link in the workspace that points outside it is
  blocked as an escape, and \<open>.env\<close> is blocked as a sensitive file.
\<close>

lemma executeRead_blocks_link_and_env:
  "executeRead workspaceHost ''link'' None None ''/workspace/42''
     = (failed (Blocked_escape (Outside_workspace ''/srv/shared/data.txt'')), [])
   \<and> executeRead workspaceHost ''.env'' None None ''/workspace/42''
     = (failed (Blocked_sensitive_read ''.env''), [])"
proof -
  have outside:
    "existsSync workspaceHost (fullPathOf ''/workspace/42'' ''link'')
     \<and> realpathSync workspaceHost (fullPathOf ''/workspace/42'' ''link'') = Some ''/srv/shared/data.txt''
     \<and> realpathSync workspaceHost ''/workspace/42'' = Some ''/workspace/42''
     \<and> \<not> startsWith ''/srv/shared/data.txt'' (''/workspace/42'' @ ''/'')
     \<and> ''/srv/shared/data.txt'' \<noteq> ''/workspace/42''"
    by (simp add: fullPath_link workspaceHost_def)
  have plain: "\<not> isSensitiveFile (fullPathOf ''/workspace/42'' ''link'')"
    by (simp add: fullPath_link sensitive_link)
  from executeRead_blocks_sensitive_and_resolved_outside
         [of "''/workspace/42''" "''link''" workspaceHost "''/srv/shared/data.txt''"
             "''/workspace/42''" None None]
       outside plain
  have one: "executeRead workspaceHost ''link'' None None ''/workspace/42''
               = (failed (Blocked_escape (Outside_workspace ''/srv/shared/data.txt'')), [])"
    by simp
  have listed: "toLowerCase (basename (fullPathOf ''/workspace/42'' ''.env''))
                  \<in> set (map toLowerCase SENSITIVE_FILES)"
    by (simp only: fullPath_env env_in_list)
  have sens: "isSensitiveFile (fullPathOf ''/workspace/42'' ''.env'')"
    by (simp add: fullPath_env sensitive_env)
  from executeRead_blocks_sensitive_and_resolved_outside
         [of "''/workspace/42''" "''.env''" workspaceHost _ _ None None]
       listed sens
  have two: "executeRead workspaceHost ''.env'' None None ''/workspace/42''
               = (failed (Blocked_sensitive_read ''.env''), [])"
    by (simp add: fullPath_env basename_env)
  from one two show ?thesis
    by (intro conjI)
qed

section \<open>\<open>search_text\<close>: which patterns are refused\<close>

text \<open>
  Under the \<open>i\<close> flag, a lower-case letter of the pattern matches exactly the characters
  that \<open>toLowerCase\<close> maps to it.
\<close>

lemma chrMatch_lower:
  assumes "lowerLetter d"
  shows "chrMatch True d c = (lowerChar c = d)"
proof -
  define n :: nat where "n = of_char c"
  define m :: nat where "m = of_char d"
  have c: "c = char_of n" and d: "d = char_of m"
    by (simp_all add: n_def m_def)
  have nb: "n < 256"
    by (simp add: n_def)
  have mb: "97 \<le> m" "m \<le> 122"
    using assms by (simp_all add: m_def lowerLetter_def less_eq_char_def)
  show ?thesis
    unfolding chrMatch_def asciiUpper_def lowerChar_def less_eq_char_def c d
    using nb mb by (auto simp: mod_if)
qed

declare lit.simps [simp del]

lemma litPrefix_lower:
  "list_all lowerLetter w \<Longrightarrow> litPrefix True t w = startsWith (toLowerCase t) w"
  by (induction t w rule: startsWith.induct) (auto simp: toLowerCase_def chrMatch_lower)

text \<open>
  What the matcher does on a literal, and on a literal followed by something else.
\<close>

lemma rmatch_lit_snd:
  "map snd (rmatch ic (lit w) (pw, t)) = (if litPrefix ic t w then [drop (length w) t] else [])"
proof (induction w arbitrary: pw t rule: lit.induct)
  case 1
  show ?case by (simp add: lit.simps)
next
  case (2 c)
  show ?case by (cases t) (simp_all add: lit.simps)
next
  case (3 c d ds)
  show ?case
  proof (cases t)
    case Nil
    then show ?thesis by (simp add: lit.simps)
  next
    case (Cons a u)
    with "3.IH" [of "isWordChar a" u] show ?thesis
      by (auto simp: lit.simps(3) split: if_splits)
  qed
qed

lemma rmatch_lit_nonempty: "(rmatch ic (lit w) (pw, t) \<noteq> []) = litPrefix ic t w"
proof -
  have "(rmatch ic (lit w) (pw, t) = []) = (map snd (rmatch ic (lit w) (pw, t)) = [])"
    by simp
  then show ?thesis
    by (simp only: rmatch_lit_snd) simp
qed

lemma rmatch_seq_lit:
  assumes "\<And>b u. (rmatch ic r (b, u) \<noteq> []) = P u"
  shows "(rmatch ic (Seq (lit w) r) (pw, t) \<noteq> []) = (litPrefix ic t w \<and> P (drop (length w) t))"
proof (cases "litPrefix ic t w")
  case False
  then have "rmatch ic (lit w) (pw, t) = []"
    using rmatch_lit_nonempty [of ic w pw t] by blast
  then have "rmatch ic (Seq (lit w) r) (pw, t) = []"
    by simp
  with False show ?thesis
    by blast
next
  case True
  then have one: "map snd (rmatch ic (lit w) (pw, t)) = [drop (length w) t]"
    by (simp only: rmatch_lit_snd if_True)
  obtain b where "rmatch ic (lit w) (pw, t) = [(b, drop (length w) t)]"
  proof (cases "rmatch ic (lit w) (pw, t)")
    case Nil
    with one show ?thesis by simp
  next
    case (Cons x xs)
    with one have "snd x = drop (length w) t" and "xs = []"
      by simp_all
    with Cons have "rmatch ic (lit w) (pw, t) = [(fst x, drop (length w) t)]"
      by (cases x) simp
    then show ?thesis
      by (rule that)
  qed
  then have "rmatch ic (Seq (lit w) r) (pw, t) = rmatch ic r (b, drop (length w) t)"
    by simp
  with True assms [of b "drop (length w) t"] show ?thesis
    by (simp only:) blast
qed

lemma rmatch_optAny_lit:
  "(rmatch ic (Seq (Opt Any) (lit w)) (b, u) \<noteq> [])
     = (litPrefix ic u w
        \<or> (case u of [] \<Rightarrow> False | c # v \<Rightarrow> \<not> isLineTerminator c \<and> litPrefix ic v w))"
proof (cases u)
  case Nil
  have "rmatch ic (Seq (Opt Any) (lit w)) (b, []) = rmatch ic (lit w) (b, [])"
    by simp
  with Nil show ?thesis
    by (simp only: rmatch_lit_nonempty list.case) simp
next
  case (Cons c v)
  have "rmatch ic (Seq (Opt Any) (lit w)) (b, c # v)
          = rmatch ic (lit w) (b, c # v)
            @ (if \<not> isLineTerminator c then rmatch ic (lit w) (isWordChar c, v) else [])"
    by simp
  then have "(rmatch ic (Seq (Opt Any) (lit w)) (b, c # v) \<noteq> [])
          = (rmatch ic (lit w) (b, c # v) \<noteq> []
             \<or> (\<not> isLineTerminator c \<and> rmatch ic (lit w) (isWordChar c, v) \<noteq> []))"
    by (simp only: append_is_Nil_conv de_Morgan_conj) (simp split: if_splits)
  with Cons show ?thesis
    by (simp only: rmatch_lit_nonempty list.case)
qed

lemma secret_words_lower:
  "list_all lowerLetter ''password''" "list_all lowerLetter ''secret''"
  "list_all lowerLetter ''token''" "list_all lowerLetter ''api''"
  "list_all lowerLetter ''key''" "list_all lowerLetter ''credential''"
  "list_all lowerLetter ''private''"
  by (simp_all add: lowerLetter_def)

lemma keyFollows_matcher:
  "(rmatch True (Seq (Opt Any) (lit ''key'')) (b, u) \<noteq> []) = keyFollows u"
  by (simp only: rmatch_optAny_lit litPrefix_lower [OF secret_words_lower(5)] keyFollows_def)

lemma secretPatterns_source:
  "source secretPatterns =
     Alt (lit ''password'') (Alt (lit ''secret'') (Alt (lit ''token'')
       (Alt (Seq (lit ''api'') (Seq (Opt Any) (lit ''key''))) (Alt (lit ''credential'')
         (Seq (lit ''private'') (Seq (Opt Any) (lit ''key'')))))))"
  and secretPatterns_ignoreCase: "ignoreCase secretPatterns = True"
  by (simp_all add: secretPatterns_def re_def)

lemma rmatch_alt_nonempty:
  "(rmatch ic (Alt r1 r2) st \<noteq> []) = (rmatch ic r1 st \<noteq> [] \<or> rmatch ic r2 st \<noteq> [])"
  by simp

lemma secret_lengths: "length ''api'' = 3" "length ''private'' = 7"
  by simp_all

lemma secretAt_matcher: "(rmatch True (source secretPatterns) (pw, t) \<noteq> []) = secretAt t"
proof -
  have word: "(rmatch True (lit w) (pw, t) \<noteq> []) = startsWith (toLowerCase t) w"
    if "list_all lowerLetter w" for w
    using that by (simp only: rmatch_lit_nonempty litPrefix_lower)
  have stem: "(rmatch True (Seq (lit w) (Seq (Opt Any) (lit ''key''))) (pw, t) \<noteq> [])
                = (startsWith (toLowerCase t) w \<and> keyFollows (drop (length w) t))"
    if "list_all lowerLetter w" for w
  proof -
    have "(rmatch True (Seq (lit w) (Seq (Opt Any) (lit ''key''))) (pw, t) \<noteq> [])
            = (litPrefix True t w \<and> keyFollows (drop (length w) t))"
      by (rule rmatch_seq_lit) (rule keyFollows_matcher)
    with that show ?thesis
      by (simp only: litPrefix_lower)
  qed
  show ?thesis
    by (simp only: secretPatterns_source rmatch_alt_nonempty secretAt_def
        word [OF secret_words_lower(1)] word [OF secret_words_lower(2)]
        word [OF secret_words_lower(3)] word [OF secret_words_lower(6)]
        stem [OF secret_words_lower(4)] stem [OF secret_words_lower(7)] secret_lengths)
qed

lemma searchFrom_secret: "searchFrom True (source secretPatterns) pw s = list_ex secretAt (tails s)"
proof (induction s arbitrary: pw)
  case Nil
  show ?case
    by (simp only: searchFrom.simps tails.simps list_ex_Nil_iff list_ex_Cons_iff secretAt_matcher) simp
next
  case (Cons c cs)
  show ?case
    by (simp only: searchFrom.simps tails.simps list_ex_Nil_iff list_ex_Cons_iff secretAt_matcher Cons.IH)
qed

lemma test_secretPatterns: "RegExp_test secretPatterns s = secretLike s"
  by (simp only: RegExp_test_def secretLike_def secretPatterns_ignoreCase searchFrom_secret)

text \<open>
  Every substring the claim lists is covered by the source's pattern.
\<close>

lemma includesStr_tails: "includesStr s w = list_ex (\<lambda>t. startsWith t w) (tails s)"
  by (induction s) simp_all

lemma tails_toLowerCase: "tails (toLowerCase s) = map toLowerCase (tails s)"
  by (induction s) (simp_all add: toLowerCase_def)

lemma startsWith_append:
  "startsWith s (u @ v) = (startsWith s u \<and> startsWith (drop (length u) s) v)"
  by (induction s u rule: startsWith.induct) simp_all

lemma drop_toLowerCase: "drop n (toLowerCase s) = toLowerCase (drop n s)"
  by (simp add: toLowerCase_def drop_map)

lemma starts_split:
  "startsWith (toLowerCase t) (a @ b)
     \<Longrightarrow> startsWith (toLowerCase t) a \<and> startsWith (toLowerCase (drop (length a) t)) b"
  by (simp only: startsWith_append drop_toLowerCase)

lemma space_like_not_terminator:
  "lowerChar c = CHR '' '' \<or> lowerChar c = CHR ''-'' \<Longrightarrow> \<not> isLineTerminator c"
  by (auto simp: isLineTerminator_def lowerChar_def)

lemma keyFollows_direct: "startsWith (toLowerCase u) ''key'' \<Longrightarrow> keyFollows u"
  by (simp only: keyFollows_def) blast

lemma keyFollows_after:
  assumes "startsWith (toLowerCase u) (d # ''key'')" and "d = CHR '' '' \<or> d = CHR ''-''"
  shows "keyFollows u"
proof (cases u)
  case Nil
  with assms(1) show ?thesis by (simp add: toLowerCase_def)
next
  case (Cons c v)
  with assms(1) have "lowerChar c = d" and rest: "startsWith (toLowerCase v) ''key''"
    by (simp_all add: toLowerCase_def)
  with assms(2) have "\<not> isLineTerminator c"
    using space_like_not_terminator [of c] by blast
  with rest Cons show ?thesis
    by (simp only: keyFollows_def list.case) blast
qed

lemma secretAt_stem:
  assumes "startsWith (toLowerCase t) (a @ b)"
      and "a = ''api'' \<or> a = ''private''"
      and "\<And>u. startsWith (toLowerCase u) b \<Longrightarrow> keyFollows u"
  shows "secretAt t"
proof -
  from starts_split [OF assms(1)]
  have a: "startsWith (toLowerCase t) a" and "startsWith (toLowerCase (drop (length a) t)) b"
    by blast+
  then have k: "keyFollows (drop (length a) t)"
    using assms(3) by blast
  from assms(2) show ?thesis
  proof
    assume "a = ''api''"
    with a k have "startsWith (toLowerCase t) ''api'' \<and> keyFollows (drop 3 t)"
      by (simp add: eval_nat_numeral)
    then show ?thesis
      by (simp only: secretAt_def) blast
  next
    assume "a = ''private''"
    with a k have "startsWith (toLowerCase t) ''private'' \<and> keyFollows (drop 7 t)"
      by (simp add: eval_nat_numeral)
    then show ?thesis
      by (simp only: secretAt_def) blast
  qed
qed

lemma secretLike_includes:
  assumes "includesStr (toLowerCase s) w"
      and "\<And>t. startsWith (toLowerCase t) w \<Longrightarrow> secretAt t"
  shows "secretLike s"
proof -
  from assms(1) obtain t where "t \<in> set (tails s)" and "startsWith (toLowerCase t) w"
    by (auto simp: includesStr_tails tails_toLowerCase list_ex_iff)
  with assms(2) show ?thesis
    by (auto simp: secretLike_def list_ex_iff)
qed

lemma secretAt_word:
  "startsWith (toLowerCase t) ''password'' \<Longrightarrow> secretAt t"
  "startsWith (toLowerCase t) ''secret'' \<Longrightarrow> secretAt t"
  "startsWith (toLowerCase t) ''token'' \<Longrightarrow> secretAt t"
  "startsWith (toLowerCase t) ''credential'' \<Longrightarrow> secretAt t"
  by (simp_all only: secretAt_def) blast+

lemma secretAt_key_words:
  "startsWith (toLowerCase t) (''api'' @ CHR '' '' # ''key'') \<Longrightarrow> secretAt t"
  "startsWith (toLowerCase t) (''api'' @ CHR ''-'' # ''key'') \<Longrightarrow> secretAt t"
  "startsWith (toLowerCase t) (''api'' @ ''key'') \<Longrightarrow> secretAt t"
  "startsWith (toLowerCase t) (''private'' @ CHR '' '' # ''key'') \<Longrightarrow> secretAt t"
  "startsWith (toLowerCase t) (''private'' @ CHR ''-'' # ''key'') \<Longrightarrow> secretAt t"
  "startsWith (toLowerCase t) (''private'' @ ''key'') \<Longrightarrow> secretAt t"
  by (erule secretAt_stem, blast, (erule keyFollows_after, blast | erule keyFollows_direct))+

lemma claimedSecretWords_split:
  "claimedSecretWords =
     [''password'', ''secret'', ''token'', ''credential'',
      ''api'' @ CHR '' '' # ''key'', ''api'' @ CHR ''-'' # ''key'', ''api'' @ ''key'',
      ''private'' @ CHR '' '' # ''key'', ''private'' @ CHR ''-'' # ''key'', ''private'' @ ''key'']"
  by (simp add: claimedSecretWords_def)

lemma claimedSecret_secretLike:
  assumes "claimedSecret s"
  shows "secretLike s"
proof -
  from assms have "list_ex (\<lambda>w. includesStr (toLowerCase s) w)
     [''password'', ''secret'', ''token'', ''credential'',
      ''api'' @ CHR '' '' # ''key'', ''api'' @ CHR ''-'' # ''key'', ''api'' @ ''key'',
      ''private'' @ CHR '' '' # ''key'', ''private'' @ CHR ''-'' # ''key'', ''private'' @ ''key'']"
    by (simp only: claimedSecret_def claimedSecretWords_split)
  then have "includesStr (toLowerCase s) ''password'' \<or> includesStr (toLowerCase s) ''secret''
    \<or> includesStr (toLowerCase s) ''token'' \<or> includesStr (toLowerCase s) ''credential''
    \<or> includesStr (toLowerCase s) (''api'' @ CHR '' '' # ''key'')
    \<or> includesStr (toLowerCase s) (''api'' @ CHR ''-'' # ''key'')
    \<or> includesStr (toLowerCase s) (''api'' @ ''key'')
    \<or> includesStr (toLowerCase s) (''private'' @ CHR '' '' # ''key'')
    \<or> includesStr (toLowerCase s) (''private'' @ CHR ''-'' # ''key'')
    \<or> includesStr (toLowerCase s) (''private'' @ ''key'')"
    by (simp only: list_ex_Cons_iff list_ex_Nil_iff simp_thms)
  then show ?thesis
    by (elim disjE) (erule secretLike_includes, erule secretAt_word secretAt_key_words)+
qed

text \<open>
  Claim C10, amended: \<open>executeSearchText\<close> returns \<open>success = false\<close> with the
  blocked-secrets error, without running any search, exactly when the requested pattern
  contains, ignoring case, \<open>password\<close>, \<open>secret\<close>, \<open>token\<close> or \<open>credential\<close>, or \<open>api\<close> or
  \<open>private\<close> followed by \<open>key\<close> either directly or after exactly one character that is not
  a line terminator (so \<open>api key\<close>, \<open>api-key\<close>, \<open>apikey\<close> and their \<open>private\<close> counterparts
  are refused, and so are \<open>api_key\<close>, \<open>api.key\<close>, \<open>apiXkey\<close>). Every other pattern passes
  this check: the search is run, once, and the tool reports success.
\<close>

theorem executeSearchText_blocks_exactly_secret_like:
  "(executeSearchText h pat p context_before context_after files_only ignore_case cwd
      = (failed Blocked_secret_search, [])) = secretLike pat
   \<and> (\<not> secretLike pat \<longrightarrow>
        success (fst (executeSearchText h pat p context_before context_after files_only
                        ignore_case cwd))
        \<and> (\<exists>cmd. snd (executeSearchText h pat p context_before context_after files_only
                           ignore_case cwd) = [Exec cmd]))
   \<and> (claimedSecret pat \<longrightarrow> secretLike pat)"
proof (intro conjI impI)
  show "(executeSearchText h pat p context_before context_after files_only ignore_case cwd
           = (failed Blocked_secret_search, [])) = secretLike pat"
    by (simp add: executeSearchText_def test_secretPatterns Let_def failed_def succeeded_def
        split: option.splits)
next
  assume "\<not> secretLike pat"
  then show "success (fst (executeSearchText h pat p context_before context_after files_only
                             ignore_case cwd))"
    by (simp add: executeSearchText_def test_secretPatterns Let_def succeeded_def
        split: option.splits)
next
  assume "\<not> secretLike pat"
  then show "\<exists>cmd. snd (executeSearchText h pat p context_before context_after files_only
                           ignore_case cwd) = [Exec cmd]"
    by (simp add: executeSearchText_def test_secretPatterns Let_def split: option.splits)
next
  assume "claimedSecret pat"
  then show "secretLike pat"
    by (rule claimedSecret_secretLike)
qed

lemma api_key_not_claimed: "\<not> claimedSecret ''api_key''"
  by code_simp

lemma api_key_matches: "RegExp_test secretPatterns ''api_key''"
  by code_simp

text \<open>
  Claim C10, as stated: the search is refused exactly when the pattern contains one of
  \<open>password\<close>, \<open>secret\<close>, \<open>token\<close>, \<open>credential\<close>, \<open>api key\<close>, \<open>api-key\<close>, \<open>apikey\<close>,
  \<open>private key\<close>, \<open>private-key\<close>, \<open>privatekey\<close>. The pattern \<open>api_key\<close> contains none of
  them and is refused all the same: in \<open>api.?key\<close> the dot stands for any character.
\<close>

theorem search_for_api_key_is_blocked:
  "\<not> claimedSecret ''api_key''
   \<and> executeSearchText workspaceHost ''api_key'' None None None False False ''/workspace/42''
       = (failed Blocked_secret_search, [])"
  by (simp add: api_key_not_claimed executeSearchText_def api_key_matches)

lemma token_secretLike: "secretLike ''token''"
  by code_simp

lemma todo_not_secretLike: "\<not> secretLike ''TODO''"
  by code_simp

text \<open>
  A search for the identifier \<open>token\<close> is refused; a search for \<open>TODO\<close> is run.
\<close>

theorem executeSearchText_blocks_exactly_secret_like_witness:
  "executeSearchText workspaceHost ''token'' None None None False False ''/workspace/42''
     = (failed Blocked_secret_search, [])
   \<and> success (fst (executeSearchText workspaceHost ''TODO'' None None None False False
                     ''/workspace/42''))"
proof -
  from executeSearchText_blocks_exactly_secret_like
         [of workspaceHost "''token''" None None None False False "''/workspace/42''"]
       token_secretLike
  have one: "executeSearchText workspaceHost ''token'' None None None False False ''/workspace/42''
               = (failed Blocked_secret_search, [])"
    by blast
  from executeSearchText_blocks_exactly_secret_like
         [of workspaceHost "''TODO''" None None None False False "''/workspace/42''"]
       todo_not_secretLike
  have two: "success (fst (executeSearchText workspaceHost ''TODO'' None None None False False
                             ''/workspace/42''))"
    by blast
  from one two show ?thesis
    by (intro conjI)
qed

end
